theory Spec2Isabelle
  imports Complex_Main "HOL-Library.Log_Nat"
begin

section \<open>UPC-A barcode generator: the component \<open>BarcodeGenerator\<close>\<close>

text \<open>
  The development follows the revision of \<open>BarcodeGenerator\<close> that computes the
  encoder options from the requested size (the source file with \<open>CM_TO_PIXEL\<close>,
  \<open>generateSingleBarcode\<close>, \<open>generateBarcodes\<close> and \<open>downloadZip\<close>).

  Conventions of the embedding.
  \<^item> A JavaScript string is a \<open>string\<close>; one \<open>char\<close> stands for one code unit of the
    uploaded text.
  \<^item> A JavaScript number that holds a length in centimetres is a finite double, kept as
    the \<open>real\<close> it denotes. A decimal literal denotes the double nearest to it, and a
    product or quotient of doubles is the double nearest to the exact result, ties to
    even (\<open>binary64\<close> below). Results of magnitude \<open>2 ^ 1024\<close> or more, which are infinite
    in JavaScript, are outside the model; the \<open>NaN\<close> of \<open>parseFloat\<close> is \<open>None\<close>. Pixel
    counts, which the source obtains from \<open>Math.round\<close> and \<open>Math.floor\<close>, are \<open>int\<close>.
  \<^item> The symbology encoder \<open>JsBarcode\<close>, the canvas, the SVG document and the zip
    archive are collaborators outside the repository. The encoder is a parameter of the
    model; a canvas is the list of drawing calls issued on it, an SVG document is its
    element tree, and the archive is the list of its files.
  \<^item> React state setters are recorded as a trace of effects, in program order.
\<close>

subsection \<open>Double-precision numbers\<close>

text \<open>
  The exponent of a non-zero real \<open>x\<close>: the integer \<open>e\<close> with \<open>2 ^ e \<le> |x| < 2 ^ (e + 1)\<close>,
  computed from the bit length of the integer part of \<open>|x|\<close>, or of its inverse.
\<close>

definition exponent_of :: "real \<Rightarrow> int" where
  "exponent_of x =
     (if 1 \<le> \<bar>x\<bar> then bitlen \<lfloor>\<bar>x\<bar>\<rfloor> - 1 else - bitlen (\<lceil>1 / \<bar>x\<bar>\<rceil> - 1))"

text \<open>The nearest integer, a tie going to the even one.\<close>

definition round_half_even :: "real \<Rightarrow> int" where
  "round_half_even z =
     (let f = \<lfloor>z\<rfloor>; r = z - of_int f
      in if r < 1 / 2 then f else if 1 / 2 < r then f + 1 else if even f then f else f + 1)"

text \<open>
  The double nearest to a real, ties to even: a significand of 53 bits at the exponent of
  the number, or at the least exponent \<open>- 1022\<close> for the subnormal ones.
\<close>

definition binary64 :: "real \<Rightarrow> real" where
  "binary64 x =
     (if x = 0 then 0
      else (let e = max (exponent_of x) (- 1022); q = 2 powi (e - 52)
            in of_int (round_half_even (x / q)) * q))"

subsection \<open>Module constants\<close>

definition BATCH_SIZE :: nat where
  "BATCH_SIZE = 50"

definition CM_TO_PIXEL :: real where
  "CM_TO_PIXEL = binary64 118.11"

definition DEFAULT_WIDTH_CM :: real where
  "DEFAULT_WIDTH_CM = binary64 2.2"

definition DEFAULT_HEIGHT_CM :: real where
  "DEFAULT_HEIGHT_CM = binary64 0.9557"

definition ASPECT_RATIO :: real where
  "ASPECT_RATIO = binary64 (DEFAULT_WIDTH_CM / DEFAULT_HEIGHT_CM)"

subsection \<open>Data\<close>

datatype export_format = PNG | SVG

fun extension :: "export_format \<Rightarrow> string" where
  "extension PNG = ''png''"
| "extension SVG = ''svg''"

text \<open>The options object handed to \<open>JsBarcode\<close>.\<close>

record barcode_options =
  format :: string
  displayValue :: bool
  width :: int
  height :: int
  margin :: int
  fontSize :: int

text \<open>
  A canvas: its \<open>width\<close> and \<open>height\<close> attributes and the drawing calls issued on its 2D
  context, oldest first. \<open>FillRect\<close> carries the \<open>fillStyle\<close> in force, \<open>DrawImage\<close> the
  source canvas, the destination offset of the three-argument \<open>drawImage(image, dx, dy)\<close>
  (which copies at the source's own size) and the value of \<open>imageSmoothingEnabled\<close> in
  force. \<open>Bars\<close> is whatever the encoder painted for a code and an options object.
\<close>

datatype canvas = Canvas (canvas_width: int) (canvas_height: int) (canvas_calls: "draw_call list")
and draw_call =
    Bars string barcode_options
  | FillRect string int int int int
  | DrawImage canvas int int bool

text \<open>
  SVG elements. Attribute values keep the structure of the template literals that build
  them: \<open>Num n\<close> is the number \<open>n\<close> converted to a string, \<open>ViewBox a b c d\<close> is
  \<open>`a b c d`\<close>, \<open>Translate x y\<close> is \<open>`translate(x, y)`\<close>.
\<close>

datatype attr_value = Num int | Str string | ViewBox int int int int | Translate int int

datatype svg_element = Element string "(string \<times> attr_value) list" "svg_element list"

text \<open>
  What the encoder leaves in the temporary \<open>svg\<close> element: \<open>svg_width\<close> and \<open>svg_height\<close>
  are \<open>parseInt\<close> of its \<open>width\<close> and \<open>height\<close> attributes (\<open>None\<close> for \<open>NaN\<close>),
  \<open>svg_children\<close> its child nodes in document order.
\<close>

record temp_svg =
  svg_width :: "int option"
  svg_height :: "int option"
  svg_children :: "svg_element list"

text \<open>
  The external encoder. \<open>None\<close> is a thrown exception. \<open>on_canvas\<close> gives the canvas as
  \<open>JsBarcode(canvas, number, options)\<close> leaves it, \<open>on_svg\<close> the temporary element.
\<close>

record encoder =
  on_canvas :: "string \<Rightarrow> barcode_options \<Rightarrow> canvas option"
  on_svg :: "string \<Rightarrow> barcode_options \<Rightarrow> temp_svg option"

text \<open>
  A code entry. \<open>dataUrl\<close> is \<open>null\<close> or the PNG data URL of a canvas, kept as that
  canvas; \<open>svgString\<close> is \<open>null\<close> or the \<open>outerHTML\<close> of an element, kept as that
  element. Neither serialisation is ever the empty string, so JavaScript truthiness of
  these fields is being non-null.
\<close>

record entry =
  number :: string
  valid :: bool
  error :: "string option"
  dataUrl :: "canvas option"
  svgString :: "svg_element option"

record dimensions =
  widthPx :: int
  heightPx :: int
  dim_widthCm :: real
  dim_heightCm :: real

record progress =
  current :: nat
  total_n :: nat

record app_state =
  showNumbers :: bool
  exportFormat :: export_format
  widthCm :: real
  heightCm :: real
  lockRatio :: bool
  barcodes :: "entry list"
  isGenerating :: bool
  progress :: progress

definition initial_state :: app_state where
  "initial_state =
     \<lparr>showNumbers = True, exportFormat = PNG, widthCm = DEFAULT_WIDTH_CM,
      heightCm = DEFAULT_HEIGHT_CM, lockRatio = True, barcodes = [],
      isGenerating = False, progress = \<lparr>current = 0, total_n = 0\<rparr>\<rparr>"

subsection \<open>Size in pixels\<close>

text \<open>\<open>Math.round\<close> rounds to the nearest integer, halves upwards.\<close>

definition Math_round :: "real \<Rightarrow> int" where
  "Math_round x = \<lfloor>x + 1 / 2\<rfloor>"

text \<open>
  The memoised \<open>dimensions\<close> object, a function of \<open>widthCm\<close> and \<open>heightCm\<close>. The two
  lengths are JavaScript numbers: an argument stands for the double nearest to it, which
  is the argument itself when it is a double. Each product is a double before
  \<open>Math.round\<close> sees it.
\<close>

definition dimensions :: "real \<Rightarrow> real \<Rightarrow> dimensions" where
  "dimensions wCm hCm =
     \<lparr>widthPx = Math_round (binary64 (binary64 wCm * CM_TO_PIXEL)),
      heightPx = Math_round (binary64 (binary64 hCm * CM_TO_PIXEL)),
      dim_widthCm = wCm,
      dim_heightCm = hCm\<rparr>"

text \<open>
  The formula of the specification for the same conversion, with the resolution in dots
  per inch as a parameter.
\<close>

definition spec_mapSize_px :: "real \<Rightarrow> real \<Rightarrow> int" where
  "spec_mapSize_px cm dpi = Math_round (cm * dpi / 2.54)"

subsection \<open>Settings handlers\<close>

text \<open>
  \<open>parseFloat(value) || fallback\<close>: the argument is the result of \<open>parseFloat\<close>, a
  double, or \<open>None\<close> for \<open>NaN\<close>; \<open>NaN\<close> and zero are falsy. The echo of the typed text into \<open>widthInput\<close> and
  \<open>heightInput\<close> is display state and is left out.
\<close>

definition or_default :: "real option \<Rightarrow> real \<Rightarrow> real" where
  "or_default parsed fallback =
     (case parsed of None \<Rightarrow> fallback | Some x \<Rightarrow> if x = 0 then fallback else x)"

definition handleWidthChange :: "real option \<Rightarrow> app_state \<Rightarrow> app_state" where
  "handleWidthChange parsed s =
     (let newWidth = or_default parsed DEFAULT_WIDTH_CM;
          s1 = s\<lparr>widthCm := newWidth\<rparr>
      in if lockRatio s then s1\<lparr>heightCm := binary64 (newWidth / ASPECT_RATIO)\<rparr> else s1)"

definition handleHeightChange :: "real option \<Rightarrow> app_state \<Rightarrow> app_state" where
  "handleHeightChange parsed s =
     (let newHeight = or_default parsed DEFAULT_HEIGHT_CM;
          s1 = s\<lparr>heightCm := newHeight\<rparr>
      in if lockRatio s then s1\<lparr>widthCm := binary64 (newHeight * ASPECT_RATIO)\<rparr> else s1)"

subsection \<open>Validation and file upload\<close>

text \<open>\<open>\d\<close> matches the code units of \<open>0\<close> to \<open>9\<close>.\<close>

definition is_digit :: "char \<Rightarrow> bool" where
  "is_digit c = (48 \<le> (of_char c :: nat) \<and> (of_char c :: nat) \<le> 57)"

text \<open>
  The matcher of \<open>/^\d{n}$/\<close>: from the start of the input, \<open>n\<close> digits, then the end of
  the input.
\<close>

fun digits_then_end :: "nat \<Rightarrow> string \<Rightarrow> bool" where
  "digits_then_end 0 s = (s = [])"
| "digits_then_end (Suc n) [] = False"
| "digits_then_end (Suc n) (c # cs) = (is_digit c \<and> digits_then_end n cs)"

definition validateBarcode :: "string \<Rightarrow> bool" where
  "validateBarcode barcode = digits_then_end 12 barcode"

text \<open>The function mapped over the lines of the uploaded file.\<close>

definition processLine :: "string \<Rightarrow> entry" where
  "processLine line =
     (let isValid = validateBarcode line
      in \<lparr>number = line,
          valid = isValid,
          error = (if isValid then None
                   else Some (''Invalid: '' @
                     (if length line \<noteq> 12 then ''must be 12 digits''
                      else ''must contain only numbers''))),
          dataUrl = None,
          svgString = None\<rparr>)"

text \<open>\<open>text.split('\n')\<close>.\<close>

fun split_newline :: "string \<Rightarrow> string list" where
  "split_newline [] = [[]]"
| "split_newline (c # cs) =
     (if c = CHR 0x0A then [] # split_newline cs
      else (case split_newline cs of
              [] \<Rightarrow> [[c]]
            | l # ls \<Rightarrow> (c # l) # ls))"

text \<open>White space removed by \<open>trim\<close>, among the code units below 256.\<close>

definition is_space :: "char \<Rightarrow> bool" where
  "is_space c = ((of_char c :: nat) \<in> {9, 10, 11, 12, 13, 32, 160})"

definition trim :: "string \<Rightarrow> string" where
  "trim s = rev (dropWhile is_space (rev (dropWhile is_space s)))"

definition handleFileUpload :: "string \<Rightarrow> app_state \<Rightarrow> app_state" where
  "handleFileUpload text s =
     (let lines = filter (\<lambda>line. length line > 0) (map trim (split_newline text));
          processedBarcodes = map processLine lines
      in s\<lparr>barcodes := processedBarcodes, progress := \<lparr>current = 0, total_n = 0\<rparr>\<rparr>)"

subsection \<open>Rendering one code\<close>

text \<open>
  The options computed at the head of \<open>generateSingleBarcode\<close> from the destructured
  \<open>widthPx\<close> and \<open>heightPx\<close> and from \<open>showNum\<close>. On \<open>int\<close>, \<open>div\<close> rounds towards
  minus infinity as \<open>Math.floor\<close> of the quotient does.
\<close>

definition barcodeOptions :: "int \<Rightarrow> int \<Rightarrow> bool \<Rightarrow> barcode_options" where
  "barcodeOptions wPx hPx showNum =
     (let margin' = 10;
          upcModules = 95;
          totalModules = upcModules + 2 * margin';
          barWidth = max 1 (wPx div totalModules);
          fontSize' = (if showNum then max 14 (hPx div 10) else 0);
          barHeight = hPx - fontSize' - 2 * margin' - 5
      in \<lparr>format = ''UPC'',
          displayValue = showNum,
          width = barWidth,
          height = barHeight,
          margin = margin',
          fontSize = fontSize'\<rparr>)"

text \<open>\<open>ctx.fillStyle = style; ctx.fillRect(x, y, w, h)\<close> on a canvas.\<close>

definition fillRect :: "string \<Rightarrow> int \<Rightarrow> int \<Rightarrow> int \<Rightarrow> int \<Rightarrow> canvas \<Rightarrow> canvas" where
  "fillRect style x y w h c =
     Canvas (canvas_width c) (canvas_height c) (canvas_calls c @ [FillRect style x y w h])"

text \<open>\<open>ctx.imageSmoothingEnabled = smoothing; ctx.drawImage(src, dx, dy)\<close>.\<close>

definition drawImage :: "canvas \<Rightarrow> int \<Rightarrow> int \<Rightarrow> bool \<Rightarrow> canvas \<Rightarrow> canvas" where
  "drawImage src dx dy smoothing c =
     Canvas (canvas_width c) (canvas_height c) (canvas_calls c @ [DrawImage src dx dy smoothing])"

text \<open>
  The raster branch of the \<open>try\<close> block; \<open>None\<close> when the encoder throws. The calls on
  the document and on the canvas are taken not to throw.
\<close>

definition render_png :: "encoder \<Rightarrow> entry \<Rightarrow> int \<Rightarrow> int \<Rightarrow> barcode_options \<Rightarrow> entry option" where
  "render_png enc barcode wPx hPx opts =
     (case on_canvas enc (number barcode) opts of
        None \<Rightarrow> None
      | Some encoded \<Rightarrow>
          (let canvas = fillRect ''white'' 0 0 (canvas_width encoded) (canvas_height encoded) encoded
           in if canvas_width canvas \<noteq> wPx \<or> canvas_height canvas \<noteq> hPx then
                (let finalCanvas = fillRect ''white'' 0 0 wPx hPx (Canvas wPx hPx []);
                     x = (wPx - canvas_width canvas) div 2;
                     y = (hPx - canvas_height canvas) div 2;
                     finalCanvas' = drawImage canvas x y False finalCanvas
                 in Some (barcode\<lparr>dataUrl := Some finalCanvas', svgString := None\<rparr>))
              else Some (barcode\<lparr>dataUrl := Some canvas, svgString := None\<rparr>)))"

text \<open>\<open>parseInt(attribute) || fallback\<close>: \<open>NaN\<close> and zero are falsy.\<close>

definition int_or :: "int option \<Rightarrow> int \<Rightarrow> int" where
  "int_or parsed fallback =
     (case parsed of None \<Rightarrow> fallback | Some n \<Rightarrow> if n = 0 then fallback else n)"

text \<open>The vector branch of the \<open>try\<close> block.\<close>

definition render_svg :: "encoder \<Rightarrow> entry \<Rightarrow> int \<Rightarrow> int \<Rightarrow> barcode_options \<Rightarrow> entry option" where
  "render_svg enc barcode wPx hPx opts =
     (case on_svg enc (number barcode) opts of
        None \<Rightarrow> None
      | Some tempSvg \<Rightarrow>
          (let actualWidth = int_or (svg_width tempSvg) wPx;
               actualHeight = int_or (svg_height tempSvg) hPx;
               finalAttrs = [(''width'', Num wPx), (''height'', Num hPx),
                             (''viewBox'', ViewBox 0 0 wPx hPx),
                             (''xmlns'', Str ''http://www.w3.org/2000/svg'')];
               bgRect = Element ''rect''
                          [(''width'', Num wPx), (''height'', Num hPx), (''fill'', Str ''white'')] [];
               content =
                 (if actualWidth \<noteq> wPx \<or> actualHeight \<noteq> hPx then
                    (let x = (wPx - actualWidth) div 2;
                         y = (hPx - actualHeight) div 2
                     in [Element ''g'' [(''transform'', Translate x y)] (svg_children tempSvg)])
                  else svg_children tempSvg);
               finalSvg = Element ''svg'' finalAttrs (bgRect # content)
           in Some (barcode\<lparr>dataUrl := None, svgString := Some finalSvg\<rparr>)))"

definition generateSingleBarcode ::
  "encoder \<Rightarrow> entry \<Rightarrow> export_format \<Rightarrow> dimensions \<Rightarrow> bool \<Rightarrow> entry" where
  "generateSingleBarcode enc barcode fmt dims showNum =
     (let wPx = widthPx dims;
          hPx = heightPx dims;
          opts = barcodeOptions wPx hPx showNum;
          attempt = (if fmt = PNG then render_png enc barcode wPx hPx opts
                     else render_svg enc barcode wPx hPx opts)
      in case attempt of
           Some rendered \<Rightarrow> rendered
         | None \<Rightarrow> barcode\<lparr>valid := False, error := Some ''Generation failed'',
                            dataUrl := None, svgString := None\<rparr>)"

subsection \<open>The generation pass\<close>

text \<open>The calls of the state setters and the pause after each chunk, in program order.\<close>

datatype effect =
    SetIsGenerating bool
  | SetBarcodes "entry list"
  | SetProgress progress
  | Pause nat

fun apply_effect :: "effect \<Rightarrow> app_state \<Rightarrow> app_state" where
  "apply_effect (SetIsGenerating b) s = s\<lparr>isGenerating := b\<rparr>"
| "apply_effect (SetBarcodes bs) s = s\<lparr>barcodes := bs\<rparr>"
| "apply_effect (SetProgress p) s = s\<lparr>progress := p\<rparr>"
| "apply_effect (Pause ms) s = s"

text \<open>\<open>xs.slice(i, j)\<close> for \<open>i \<le> j\<close>.\<close>

definition slice :: "'a list \<Rightarrow> nat \<Rightarrow> nat \<Rightarrow> 'a list" where
  "slice xs i j = take (j - i) (drop i xs)"

text \<open>The callback mapped over a chunk.\<close>

definition process_entry :: "encoder \<Rightarrow> export_format \<Rightarrow> dimensions \<Rightarrow> bool \<Rightarrow> entry \<Rightarrow> entry" where
  "process_entry enc fmt dims showNum barcode =
     (if \<not> valid barcode then barcode
      else generateSingleBarcode enc barcode fmt dims showNum)"

text \<open>
  \<open>processedBatch.forEach((processedBarcode, batchIndex) => { updatedBarcodes[i + batchIndex]
  = processedBarcode })\<close>. The callbacks of a chunk are synchronous, and \<open>Promise.all\<close>
  delivers their results by position, so \<open>processedBatch\<close> is the chunk mapped in order.
  The chunk is a slice of the list, so every index written is below its length, where
  assignment to an array element and list update agree.
\<close>

definition write_back :: "nat \<Rightarrow> 'a list \<Rightarrow> 'a list \<Rightarrow> 'a list" where
  "write_back i processedBatch updatedBarcodes =
     fold (\<lambda>(batchIndex, processedBarcode) acc. acc[i + batchIndex := processedBarcode])
       (enumerate 0 processedBatch) updatedBarcodes"

definition count_valid :: "entry list \<Rightarrow> nat" where
  "count_valid bs = length (filter valid bs)"

text \<open>
  The \<open>for\<close> loop of \<open>generateBarcodes\<close> from index \<open>i\<close>; \<open>barcodes0\<close> is the entry list
  captured when the pass started, \<open>updatedBarcodes\<close> the working copy.
\<close>

function generate_loop ::
  "encoder \<Rightarrow> export_format \<Rightarrow> dimensions \<Rightarrow> bool \<Rightarrow> entry list \<Rightarrow> nat \<Rightarrow> entry list \<Rightarrow> effect list" where
  "generate_loop enc fmt dims showNum barcodes0 i updatedBarcodes =
     (if i < length updatedBarcodes then
        (let batch = slice updatedBarcodes i (i + BATCH_SIZE);
             processedBatch = map (process_entry enc fmt dims showNum) batch;
             updated = write_back i processedBatch updatedBarcodes
         in [SetBarcodes updated,
             SetProgress \<lparr>current = min (i + BATCH_SIZE) (count_valid updated),
                          total_n = count_valid barcodes0\<rparr>,
             Pause 10]
            @ generate_loop enc fmt dims showNum barcodes0 (i + BATCH_SIZE) updated)
      else [])"
  by pat_completeness auto

lemma length_fold_update:
  "length (fold (\<lambda>(j, p) acc. acc[i + j := p]) ps xs) = length xs"
  by (induction ps arbitrary: xs) (auto split: prod.splits)

lemma length_write_back [simp]: "length (write_back i ps xs) = length xs"
  by (simp add: write_back_def length_fold_update)

termination generate_loop
  by (relation "measure (\<lambda>(enc, fmt, dims, showNum, barcodes0, i, updatedBarcodes).
                  length updatedBarcodes - i)")
     (auto simp: BATCH_SIZE_def)

text \<open>
  \<open>generateBarcodes\<close>, started in state \<open>s\<close>: the settings and the entry list are read
  from \<open>s\<close> once, before the loop.
\<close>

definition generateBarcodes :: "encoder \<Rightarrow> app_state \<Rightarrow> effect list" where
  "generateBarcodes enc s =
     (let currentDimensions = dimensions (widthCm s) (heightCm s);
          currentFormat = exportFormat s;
          currentShowNumbers = showNumbers s
      in [SetIsGenerating True,
          SetProgress \<lparr>current = 0, total_n = count_valid (barcodes s)\<rparr>]
         @ generate_loop enc currentFormat currentDimensions currentShowNumbers
             (barcodes s) 0 (barcodes s)
         @ [SetIsGenerating False,
            SetProgress \<lparr>current = 0, total_n = 0\<rparr>])"

text \<open>The state after a pass that nothing else interleaves with.\<close>

definition run_pass :: "encoder \<Rightarrow> app_state \<Rightarrow> app_state" where
  "run_pass enc s = fold apply_effect (generateBarcodes enc s) s"

text \<open>The values handed to \<open>setProgress\<close>, in order.\<close>

fun published_progress :: "effect list \<Rightarrow> progress list" where
  "published_progress [] = []"
| "published_progress (SetProgress p # es) = p # published_progress es"
| "published_progress (_ # es) = published_progress es"

subsection \<open>The archive\<close>

text \<open>
  The data of a file of the archive: \<open>Base64Of c\<close> is the part of the data URL of canvas
  \<open>c\<close> after its first comma, added with \<open>base64: true\<close> and so stored decoded;
  \<open>Text e\<close> is the markup of element \<open>e\<close>, added as a string.
\<close>

datatype zip_data = Base64Of canvas | Text svg_element

text \<open>\<open>zip.file(name, data)\<close>: a file of the same name is replaced.\<close>

fun zip_file :: "string \<Rightarrow> zip_data \<Rightarrow> (string \<times> zip_data) list \<Rightarrow> (string \<times> zip_data) list" where
  "zip_file name d [] = [(name, d)]"
| "zip_file name d ((n, d') # files) =
     (if n = name then (name, d) # files else (n, d') # zip_file name d files)"

text \<open>The body of the \<open>forEach\<close> of \<open>downloadZip\<close>.\<close>

definition add_barcode ::
  "export_format \<Rightarrow> entry \<Rightarrow> (string \<times> zip_data) list \<Rightarrow> (string \<times> zip_data) list" where
  "add_barcode fmt barcode archive =
     (if valid barcode then
        (if fmt = PNG \<and> dataUrl barcode \<noteq> None then
           zip_file (number barcode @ ''.'' @ extension fmt) (Base64Of (the (dataUrl barcode))) archive
         else if fmt = SVG \<and> svgString barcode \<noteq> None then
           zip_file (number barcode @ ''.'' @ extension fmt) (Text (the (svgString barcode))) archive
         else archive)
      else archive)"

text \<open>\<open>downloadZip\<close>: the name the archive is saved under, and its files.\<close>

definition downloadZip :: "app_state \<Rightarrow> string \<times> (string \<times> zip_data) list" where
  "downloadZip s =
     (''barcodes.'' @ extension (exportFormat s) @ ''.zip'',
      fold (add_barcode (exportFormat s)) (barcodes s) [])"

subsection \<open>Reachable states\<close>

text \<open>What the user can do between two renderings of the component.\<close>

datatype event =
    ShowNumbersChanged bool
  | ExportFormatChanged export_format
  | WidthChanged "real option"
  | HeightChanged "real option"
  | LockRatioToggled
  | FileUploaded string

fun handle :: "event \<Rightarrow> app_state \<Rightarrow> app_state" where
  "handle (ShowNumbersChanged b) s = s\<lparr>showNumbers := b\<rparr>"
| "handle (ExportFormatChanged f) s = s\<lparr>exportFormat := f\<rparr>"
| "handle (WidthChanged parsed) s = handleWidthChange parsed s"
| "handle (HeightChanged parsed) s = handleHeightChange parsed s"
| "handle LockRatioToggled s = s\<lparr>lockRatio := \<not> lockRatio s\<rparr>"
| "handle (FileUploaded text) s = handleFileUpload text s"

text \<open>
  A pass started in a reachable state \<open>s0\<close> reads \<open>s0\<close> once and then applies its effects
  one at a time, between which the user may act and other passes may run; so each of its
  effects may meet any reachable state.
\<close>

inductive reachable :: "encoder \<Rightarrow> app_state \<Rightarrow> bool" for enc :: encoder where
  initial: "reachable enc initial_state"
| user: "reachable enc s \<Longrightarrow> reachable enc (handle ev s)"
| pass: "reachable enc s0 \<Longrightarrow> reachable enc s \<Longrightarrow> e \<in> set (generateBarcodes enc s0)
         \<Longrightarrow> reachable enc (apply_effect e s)"

code_pred reachable .

subsection \<open>Notions used to describe a pass\<close>

text \<open>
  The working copy once the first \<open>m\<close> entries went through \<open>f\<close>; the effects of the chunk
  that starts at index \<open>i\<close>; the number of chunks of a list of \<open>n\<close> entries; the callback of a
  pass started in state \<open>s\<close>; and the entry list and the progress published after chunk \<open>k\<close>,
  counted from 0.
\<close>

definition processed_upto :: "('a \<Rightarrow> 'a) \<Rightarrow> nat \<Rightarrow> 'a list \<Rightarrow> 'a list" where
  "processed_upto f m bs = map f (take m bs) @ drop m bs"

definition chunk_effects :: "(entry \<Rightarrow> entry) \<Rightarrow> entry list \<Rightarrow> nat \<Rightarrow> effect list" where
  "chunk_effects f bs i =
     [SetBarcodes (processed_upto f (i + BATCH_SIZE) bs),
      SetProgress \<lparr>current = min (i + BATCH_SIZE) (count_valid (processed_upto f (i + BATCH_SIZE) bs)),
                   total_n = count_valid bs\<rparr>,
      Pause 10]"

definition chunk_count :: "nat \<Rightarrow> nat" where
  "chunk_count n = (n + (BATCH_SIZE - 1)) div BATCH_SIZE"

definition pass_callback :: "encoder \<Rightarrow> app_state \<Rightarrow> entry \<Rightarrow> entry" where
  "pass_callback enc s =
     process_entry enc (exportFormat s) (dimensions (widthCm s) (heightCm s)) (showNumbers s)"

definition snapshot_after :: "encoder \<Rightarrow> app_state \<Rightarrow> nat \<Rightarrow> entry list" where
  "snapshot_after enc s k = processed_upto (pass_callback enc s) (Suc k * BATCH_SIZE) (barcodes s)"

definition progress_after :: "encoder \<Rightarrow> app_state \<Rightarrow> nat \<Rightarrow> progress" where
  "progress_after enc s k =
     \<lparr>current = min (Suc k * BATCH_SIZE) (count_valid (snapshot_after enc s k)),
      total_n = count_valid (barcodes s)\<rparr>"

text \<open>The lists handed to \<open>setBarcodes\<close>, in order.\<close>

fun published_barcodes :: "effect list \<Rightarrow> entry list list" where
  "published_barcodes [] = []"
| "published_barcodes (SetBarcodes bs # es) = bs # published_barcodes es"
| "published_barcodes (_ # es) = published_barcodes es"

text \<open>The encoder throws for a code and an options object, in the branch of the format.\<close>

definition encoder_throws :: "encoder \<Rightarrow> export_format \<Rightarrow> string \<Rightarrow> barcode_options \<Rightarrow> bool" where
  "encoder_throws enc fmt code opts =
     (case fmt of PNG \<Rightarrow> on_canvas enc code opts = None | SVG \<Rightarrow> on_svg enc code opts = None)"

subsection \<open>Notions used to describe the archive\<close>

text \<open>
  An entry contributes to an archive of a format when it is valid and its artifact of that
  format is not null; \<open>file_name\<close> and \<open>file_data\<close> are the name and the data of the file
  it is added as; \<open>files_named\<close> selects the files of an archive that bear a name.
\<close>

definition contributes :: "export_format \<Rightarrow> entry \<Rightarrow> bool" where
  "contributes fmt e =
     (valid e \<and> (case fmt of PNG \<Rightarrow> dataUrl e \<noteq> None | SVG \<Rightarrow> svgString e \<noteq> None))"

definition file_name :: "export_format \<Rightarrow> entry \<Rightarrow> string" where
  "file_name fmt e = number e @ ''.'' @ extension fmt"

definition file_data :: "export_format \<Rightarrow> entry \<Rightarrow> zip_data" where
  "file_data fmt e =
     (case fmt of PNG \<Rightarrow> Base64Of (the (dataUrl e)) | SVG \<Rightarrow> Text (the (svgString e)))"

definition files_named :: "string \<Rightarrow> (string \<times> zip_data) list \<Rightarrow> (string \<times> zip_data) list" where
  "files_named name files = filter (\<lambda>f. fst f = name) files"

subsection \<open>The invariant of an entry\<close>

text \<open>An artifact field is non-null only if the entry is valid.\<close>

definition artifact_only_if_valid :: "entry \<Rightarrow> bool" where
  "artifact_only_if_valid e = (dataUrl e \<noteq> None \<or> svgString e \<noteq> None \<longrightarrow> valid e)"

subsection \<open>Collaborators and inputs used in examples\<close>

text \<open>
  An encoder that accepts every code: it paints 95 modules of the requested width between
  two margins, as high as the bars, the digits and two margins.
\<close>

definition accepting_encoder :: encoder where
  "accepting_encoder =
     \<lparr>on_canvas = (\<lambda>code opts.
        Some (Canvas (95 * width opts + 2 * margin opts)
                (height opts + fontSize opts + 2 * margin opts) [Bars code opts])),
      on_svg = (\<lambda>code opts.
        Some \<lparr>svg_width = Some (95 * width opts + 2 * margin opts),
               svg_height = Some (height opts + fontSize opts + 2 * margin opts),
               svg_children = [Element ''rect'' [(''fill'', Str ''#ffffff'')] [],
                               Element ''g'' [(''fill'', Str ''#000000'')] []]\<rparr>)\<rparr>"

definition good_entry :: entry where
  "good_entry = processLine ''012345678905''"

definition bad_entry :: entry where
  "bad_entry = processLine ''bad''"

text \<open>An encoder that throws for the code \<open>012345678900\<close> only.\<close>

definition picky_encoder :: encoder where
  "picky_encoder =
     \<lparr>on_canvas = (\<lambda>code opts. if code = ''012345678900'' then None
                                  else on_canvas accepting_encoder code opts),
      on_svg = (\<lambda>code opts. if code = ''012345678900'' then None
                               else on_svg accepting_encoder code opts)\<rparr>"

text \<open>Entry lists: two well-formed codes; fifty malformed lines before one code; fifty-one
  times the same code.\<close>

definition two_codes :: app_state where
  "two_codes = initial_state\<lparr>barcodes := [processLine ''012345678900'', good_entry]\<rparr>"

definition fifty_bad_one_good :: app_state where
  "fifty_bad_one_good = initial_state\<lparr>barcodes := replicate 50 bad_entry @ [good_entry]\<rparr>"

definition fifty_one_good :: app_state where
  "fifty_one_good = initial_state\<lparr>barcodes := replicate 51 good_entry\<rparr>"

text \<open>A rendered code, a malformed line and a code not yet rendered, with the format PNG.\<close>

definition rendered_state :: app_state where
  "rendered_state =
     initial_state\<lparr>barcodes :=
       [good_entry\<lparr>dataUrl := Some (Canvas 260 113 [])\<rparr>,
        bad_entry,
        good_entry\<lparr>number := ''123456789012''\<rparr>]\<rparr>"

text \<open>
  The state after uploading a file of one code, and the state after a pass over it with
  the accepting encoder.
\<close>

definition uploaded_one :: app_state where
  "uploaded_one = handle (FileUploaded ''012345678905'') initial_state"

definition generated_one :: app_state where
  "generated_one = run_pass accepting_encoder uploaded_one"

section \<open>Properties\<close>

subsection \<open>Validation\<close>

lemma digits_then_end_iff:
  "digits_then_end n s \<longleftrightarrow> length s = n \<and> (\<forall>c\<in>set s. is_digit c)"
  by (induction n s rule: digits_then_end.induct) auto

lemma char_of_digits:
  "char_of (48::nat) = CHR ''0''" "char_of (49::nat) = CHR ''1''" "char_of (50::nat) = CHR ''2''"
  "char_of (51::nat) = CHR ''3''" "char_of (52::nat) = CHR ''4''" "char_of (53::nat) = CHR ''5''"
  "char_of (54::nat) = CHR ''6''" "char_of (55::nat) = CHR ''7''" "char_of (56::nat) = CHR ''8''"
  "char_of (57::nat) = CHR ''9''"
  by code_simp+

lemma is_digit_iff: "is_digit c \<longleftrightarrow> c \<in> set ''0123456789''"
proof
  assume "is_digit c"
  then have "(of_char c :: nat) \<in> {48, 49, 50, 51, 52, 53, 54, 55, 56, 57}"
    unfolding is_digit_def by simp arith
  then have "char_of (of_char c :: nat) \<in> char_of ` {48 :: nat, 49, 50, 51, 52, 53, 54, 55, 56, 57}"
    by (rule imageI)
  then have "c \<in> char_of ` {48 :: nat, 49, 50, 51, 52, 53, 54, 55, 56, 57}"
    by (simp only: char_of_char)
  then show "c \<in> set ''0123456789''"
    by (simp only: image_insert image_empty char_of_digits list.set)
next
  assume "c \<in> set ''0123456789''"
  then show "is_digit c"
    by (auto simp: is_digit_def)
qed

text \<open>
  Claim C5. The entry built for a line is valid exactly when the line has length 12 and
  each of its characters is one of the ten ASCII digits. A valid entry has no error; an
  invalid one records \<open>Invalid: must be 12 digits\<close> when the length is not 12, and
  \<open>Invalid: must contain only numbers\<close> otherwise, so the length is looked at first.
\<close>

theorem validation_exactly_12_digits:
  "valid (processLine line) = (length line = 12 \<and> (\<forall>c\<in>set line. c \<in> set ''0123456789''))
   \<and> number (processLine line) = line
   \<and> (valid (processLine line) \<longrightarrow> error (processLine line) = None)
   \<and> (\<not> valid (processLine line) \<and> length line \<noteq> 12 \<longrightarrow>
        error (processLine line) = Some ''Invalid: must be 12 digits'')
   \<and> (\<not> valid (processLine line) \<and> length line = 12 \<longrightarrow>
        error (processLine line) = Some ''Invalid: must contain only numbers'')"
  by (simp add: processLine_def validateBarcode_def digits_then_end_iff is_digit_iff Let_def)

text \<open>The three lines the specification gives as examples.\<close>

theorem validation_witness:
  "valid (processLine ''012345678905'')
   \<and> error (processLine ''012345678905'') = None
   \<and> \<not> valid (processLine ''01234567890'')
   \<and> error (processLine ''01234567890'') = Some ''Invalid: must be 12 digits''
   \<and> \<not> valid (processLine ''01234567890A'')
   \<and> error (processLine ''01234567890A'') = Some ''Invalid: must contain only numbers''"
  using validation_exactly_12_digits [of "''012345678905''"]
    validation_exactly_12_digits [of "''01234567890''"]
    validation_exactly_12_digits [of "''01234567890A''"]
  by simp

subsection \<open>The default size in pixels\<close>

lemma default_size:
  "widthPx (dimensions DEFAULT_WIDTH_CM DEFAULT_HEIGHT_CM) = 260"
  "heightPx (dimensions DEFAULT_WIDTH_CM DEFAULT_HEIGHT_CM) = 113"
  by code_simp+

subsection \<open>Encoder options\<close>

lemma barcodeOptions_fields:
  "format (barcodeOptions wPx hPx showNum) = ''UPC''"
  "displayValue (barcodeOptions wPx hPx showNum) = showNum"
  "width (barcodeOptions wPx hPx showNum) = max 1 (wPx div 115)"
  "fontSize (barcodeOptions wPx hPx showNum) = (if showNum then max 14 (hPx div 10) else 0)"
  "margin (barcodeOptions wPx hPx showNum) = 10"
  "height (barcodeOptions wPx hPx showNum)
     = hPx - (if showNum then max 14 (hPx div 10) else 0) - 2 * 10 - 5"
  by (simp_all add: barcodeOptions_def Let_def)

text \<open>
  Claim C2, as amended. For every target pixel size and every \<open>showNumbers\<close> flag the bar
  width is \<open>max(1, floor(widthPx / 115))\<close>, the font size is \<open>max(14, floor(heightPx / 10))\<close>
  when numbers are shown and zero otherwise, the margin is 10 and the bar height is
  \<open>heightPx - fontSize - 2 * margin - 5\<close>. No minimum is applied to the bar height: it is
  positive exactly when \<open>heightPx\<close> exceeds \<open>fontSize + 25\<close>, which holds for every
  \<open>heightPx\<close> of at least 40. The rendering of a code depends on the dimensions object
  through \<open>widthPx\<close> and \<open>heightPx\<close> only.
\<close>

theorem encoder_params_from_pixel_size:
  "width (barcodeOptions wPx hPx showNum) = max 1 (wPx div 115)
   \<and> fontSize (barcodeOptions wPx hPx showNum) = (if showNum then max 14 (hPx div 10) else 0)
   \<and> margin (barcodeOptions wPx hPx showNum) = 10
   \<and> height (barcodeOptions wPx hPx showNum)
       = hPx - fontSize (barcodeOptions wPx hPx showNum)
             - 2 * margin (barcodeOptions wPx hPx showNum) - 5
   \<and> (0 < height (barcodeOptions wPx hPx showNum)
        \<longleftrightarrow> fontSize (barcodeOptions wPx hPx showNum) + 25 < hPx)
   \<and> (40 \<le> hPx \<longrightarrow> 0 < height (barcodeOptions wPx hPx showNum))
   \<and> (widthPx dims = widthPx dims' \<and> heightPx dims = heightPx dims' \<longrightarrow>
        generateSingleBarcode enc barcode fmt dims showNum
          = generateSingleBarcode enc barcode fmt dims' showNum)"
proof -
  have "0 < height (barcodeOptions wPx hPx showNum)
        \<longleftrightarrow> fontSize (barcodeOptions wPx hPx showNum) + 25 < hPx"
    by (cases showNum) (simp_all add: barcodeOptions_fields, arith)
  moreover have "40 \<le> hPx \<longrightarrow> 0 < height (barcodeOptions wPx hPx showNum)"
    by (cases showNum) (simp_all add: barcodeOptions_fields, arith)
  moreover have "widthPx dims = widthPx dims' \<and> heightPx dims = heightPx dims' \<longrightarrow>
        generateSingleBarcode enc barcode fmt dims showNum
          = generateSingleBarcode enc barcode fmt dims' showNum"
    by (simp add: generateSingleBarcode_def)
  ultimately show ?thesis
    by (simp add: barcodeOptions_fields)
qed

text \<open>At the default size, 260 by 113 pixels, with numbers shown.\<close>

theorem encoder_params_witness:
  "(40::int) \<le> 113 \<and> height (barcodeOptions 260 113 True) = 74
   \<and> width (barcodeOptions 260 113 True) = 2
   \<and> fontSize (barcodeOptions 260 113 True) = 14
   \<and> generateSingleBarcode accepting_encoder good_entry PNG (dimensions DEFAULT_WIDTH_CM DEFAULT_HEIGHT_CM) True
       = generateSingleBarcode accepting_encoder good_entry PNG
           \<lparr>widthPx = 260, heightPx = 113, dim_widthCm = 0, dim_heightCm = 0\<rparr> True"
proof -
  note px = default_size
  show ?thesis
    using encoder_params_from_pixel_size
      [of 260 113 True "dimensions DEFAULT_WIDTH_CM DEFAULT_HEIGHT_CM"
          "\<lparr>widthPx = 260, heightPx = 113, dim_widthCm = 0, dim_heightCm = 0\<rparr>"
          accepting_encoder good_entry PNG]
      px
    by simp
qed

text \<open>
  A target 30 pixels high with numbers shown: the font takes 14 pixels, margins and
  padding 25, and the bar height handed to the encoder is negative.
\<close>

theorem bar_height_collapses_counterexample:
  "height (barcodeOptions 260 30 True) = -9 \<and> \<not> 0 < height (barcodeOptions 260 30 True)"
  by (simp add: barcodeOptions_fields)

subsection \<open>Centimetres to pixels\<close>

lemma round_half_even_close: "\<bar>of_int (round_half_even z) - z\<bar> \<le> 1 / 2"
  unfolding round_half_even_def Let_def by (auto simp: abs_le_iff)

lemma exponent_of_large:
  assumes "1 \<le> \<bar>x\<bar>"
  shows "2 powi exponent_of x \<le> \<bar>x\<bar>" and "\<bar>x\<bar> < 2 powi (exponent_of x + 1)"
proof -
  let ?m = "\<lfloor>\<bar>x\<bar>\<rfloor>"
  have m: "0 < ?m" using assms by simp
  from bitlen_bounds [OF m] have lo: "2 ^ nat (bitlen ?m - 1) \<le> ?m" and hi: "?m < 2 ^ nat (bitlen ?m)"
    by simp_all
  have b1: "1 \<le> bitlen ?m"
    using m bitlen_eq_zero_iff [of ?m] bitlen_nonneg [of ?m] by linarith
  have e: "exponent_of x = bitlen ?m - 1"
    using assms by (simp add: exponent_of_def)
  have "(2::real) powi (bitlen ?m - 1) = 2 ^ nat (bitlen ?m - 1)"
    using b1 by (simp add: power_int_def)
  also have "\<dots> = of_int (2 ^ nat (bitlen ?m - 1))" by simp
  also have "\<dots> \<le> of_int ?m" using lo by (simp only: of_int_le_iff)
  also have "\<dots> \<le> \<bar>x\<bar>" by simp
  finally show "2 powi exponent_of x \<le> \<bar>x\<bar>" by (simp only: e)
  have "?m + 1 \<le> 2 ^ nat (bitlen ?m)" using hi by simp
  then have "of_int (?m + 1) \<le> (of_int (2 ^ nat (bitlen ?m)) :: real)"
    by (simp only: of_int_le_iff)
  then have "of_int ?m + 1 \<le> (2::real) ^ nat (bitlen ?m)" by simp
  moreover have "\<bar>x\<bar> < of_int ?m + 1" by linarith
  ultimately have "\<bar>x\<bar> < 2 ^ nat (bitlen ?m)" by linarith
  also have "\<dots> = 2 powi (bitlen ?m - 1 + 1)"
    using b1 by (simp add: power_int_def)
  finally show "\<bar>x\<bar> < 2 powi (exponent_of x + 1)" by (simp only: e)
qed

lemma exponent_of_small:
  assumes "x \<noteq> 0" "\<bar>x\<bar> < 1"
  shows "2 powi exponent_of x \<le> \<bar>x\<bar>" and "\<bar>x\<bar> < 2 powi (exponent_of x + 1)"
proof -
  let ?y = "1 / \<bar>x\<bar>"
  let ?n = "\<lceil>?y\<rceil> - 1"
  have ax: "0 < \<bar>x\<bar>" using assms by simp
  have y: "1 < ?y" using assms ax by simp
  then have "2 \<le> \<lceil>?y\<rceil>" by linarith
  then have n: "0 < ?n" by simp
  have ny: "of_int ?n < ?y" "?y \<le> of_int ?n + 1"
    by linarith+
  from bitlen_bounds [OF n] have lo: "2 ^ nat (bitlen ?n - 1) \<le> ?n" and hi: "?n < 2 ^ nat (bitlen ?n)"
    by simp_all
  have b1: "1 \<le> bitlen ?n"
    using n bitlen_eq_zero_iff [of ?n] bitlen_nonneg [of ?n] by linarith
  have e: "exponent_of x = - bitlen ?n"
    using assms by (simp add: exponent_of_def)
  have "?n + 1 \<le> 2 ^ nat (bitlen ?n)" using hi by simp
  then have "of_int (?n + 1) \<le> (of_int (2 ^ nat (bitlen ?n)) :: real)"
    by (simp only: of_int_le_iff)
  then have "of_int ?n + 1 \<le> (2::real) ^ nat (bitlen ?n)" by simp
  with ny have "?y \<le> 2 ^ nat (bitlen ?n)" by linarith
  then have "1 / 2 ^ nat (bitlen ?n) \<le> \<bar>x\<bar>"
    using ax by (simp add: field_simps)
  moreover have "(2::real) powi (- bitlen ?n) = 1 / 2 ^ nat (bitlen ?n)"
    using b1 by (simp add: power_int_def field_simps)
  ultimately show "2 powi exponent_of x \<le> \<bar>x\<bar>" by (simp only: e)
  have "(of_int (2 ^ nat (bitlen ?n - 1)) :: real) \<le> of_int ?n"
    using lo by (simp only: of_int_le_iff)
  then have "(2::real) ^ nat (bitlen ?n - 1) \<le> of_int ?n" by simp
  with ny have "2 ^ nat (bitlen ?n - 1) < ?y" by linarith
  then have "\<bar>x\<bar> < 1 / 2 ^ nat (bitlen ?n - 1)"
    using ax by (simp add: field_simps)
  moreover have "(2::real) powi (- bitlen ?n + 1) = 1 / 2 ^ nat (bitlen ?n - 1)"
  proof (cases "bitlen ?n = 1")
    case True
    then show ?thesis by simp
  next
    case False
    with b1 have "- bitlen ?n + 1 < 0" "nat (- (- bitlen ?n + 1)) = nat (bitlen ?n - 1)" by simp_all
    then show ?thesis by (simp add: power_int_def field_simps)
  qed
  ultimately show "\<bar>x\<bar> < 2 powi (exponent_of x + 1)" by (simp only: e)
qed

lemma exponent_of_bounds:
  assumes "x \<noteq> 0"
  shows "2 powi exponent_of x \<le> \<bar>x\<bar>" and "\<bar>x\<bar> < 2 powi (exponent_of x + 1)"
  using assms exponent_of_large [of x] exponent_of_small [of x] by (cases "1 \<le> \<bar>x\<bar>"; simp)+

lemma exponent_of_less:
  assumes "x \<noteq> 0" "\<bar>x\<bar> < 2 powi k"
  shows "exponent_of x < k"
proof (rule ccontr)
  assume "\<not> exponent_of x < k"
  then have "(2::real) powi k \<le> 2 powi exponent_of x"
    by (intro power_int_increasing) simp_all
  with exponent_of_bounds(1) [OF assms(1)] assms(2) show False by linarith
qed

lemma binary64_close:
  assumes "\<bar>x\<bar> < 2 powi k" "- 1022 < k"
  shows "\<bar>binary64 x - x\<bar> \<le> 2 powi (k - 54)"
proof (cases "x = 0")
  case True
  then show ?thesis by (simp add: binary64_def)
next
  case False
  define e where "e = max (exponent_of x) (- 1022)"
  define q :: real where "q = 2 powi (e - 52)"
  have q0: "0 < q" by (simp add: q_def)
  have "e < k" using exponent_of_less [OF False assms(1)] assms(2) by (simp add: e_def)
  then have "e - 52 \<le> k - 53" by simp
  then have qk: "q \<le> 2 powi (k - 53)"
    unfolding q_def by (intro power_int_increasing) simp_all
  have b: "binary64 x = of_int (round_half_even (x / q)) * q"
    using False by (simp add: binary64_def e_def q_def Let_def)
  have "binary64 x - x = (of_int (round_half_even (x / q)) - x / q) * q"
    using q0 by (simp add: b field_simps)
  then have "\<bar>binary64 x - x\<bar> = \<bar>of_int (round_half_even (x / q)) - x / q\<bar> * q"
    using q0 by (simp add: abs_mult)
  also have "\<dots> \<le> 1 / 2 * q"
    using q0 round_half_even_close [of "x / q"] by (intro mult_right_mono) simp_all
  also have "\<dots> \<le> 1 / 2 * 2 powi (k - 53)"
    using qk by simp
  also have "\<dots> = 2 powi (k - 54)"
  proof -
    have "(2::real) powi (k - 54) * 2 powi 1 = 2 powi (k - 54 + 1)"
      by (subst power_int_add) simp_all
    then show ?thesis by simp
  qed
  finally show ?thesis .
qed

lemma binary64_close_4096:
  assumes "\<bar>x\<bar> < 4096"
  shows "\<bar>binary64 x - x\<bar> \<le> 1 / 2 ^ 42"
proof -
  have "(2::real) powi 12 = 4096" "(2::real) powi (12 - 54) = 1 / 2 ^ 42"
    by (simp_all add: power_int_def power_divide)
  then show ?thesis
    using binary64_close [of x 12] assms by simp
qed

lemma Math_round_close:
  assumes "\<bar>a - b\<bar> \<le> 1"
  shows "\<bar>Math_round a - Math_round b\<bar> \<le> 1"
  unfolding Math_round_def using assms by linarith

lemma CM_TO_PIXEL_value: "CM_TO_PIXEL = 8311252374823895 / 70368744177664"
  unfolding CM_TO_PIXEL_def by code_simp

lemma binary64_close_32:
  assumes "\<bar>x\<bar> < 32"
  shows "\<bar>binary64 x - x\<bar> \<le> 1 / 2 ^ 49"
proof -
  have "(2::real) powi 5 = 32" "(2::real) powi (5 - 54) = 1 / 2 ^ 49"
    by (simp_all add: power_int_def power_divide)
  then show ?thesis
    using binary64_close [of x 5] assms by simp
qed

lemma px_close_to_300dpi:
  assumes "0 \<le> cm" "cm \<le> 30"
  shows "\<bar>Math_round (binary64 (binary64 cm * CM_TO_PIXEL)) - spec_mapSize_px cm 300\<bar> \<le> 1"
proof -
  let ?c = "8311252374823895 / 70368744177664 :: real"
  let ?b = "binary64 cm"
  have b: "\<bar>?b - cm\<bar> \<le> 1 / 2 ^ 49"
    using assms by (intro binary64_close_32) simp
  have "1 / 2 ^ 49 \<le> (1 :: real)"
    by simp
  with b assms have b31: "\<bar>?b\<bar> \<le> 31"
    by linarith
  have "\<bar>?b * ?c\<bar> = \<bar>?b\<bar> * ?c"
    by (simp add: abs_mult)
  also have "\<dots> \<le> 31 * ?c"
    using b31 by (intro mult_right_mono) simp_all
  also have "\<dots> < 4096"
    by simp
  finally have small: "\<bar>?b * ?c\<bar> < 4096" .
  have r: "\<bar>binary64 (?b * ?c) - ?b * ?c\<bar> \<le> 1 / 2 ^ 42"
    by (rule binary64_close_4096 [OF small])
  have "?b * ?c - cm * ?c = (?b - cm) * ?c"
    by (simp only: left_diff_distrib)
  then have "\<bar>?b * ?c - cm * ?c\<bar> = \<bar>?b - cm\<bar> * \<bar>?c\<bar>"
    by (simp only: abs_mult)
  also have "\<dots> = \<bar>?b - cm\<bar> * ?c"
    by simp
  also have "\<dots> \<le> 1 / 2 ^ 49 * ?c"
    using b by (intro mult_right_mono) simp_all
  also have "\<dots> \<le> 1 / 2 ^ 42"
    by simp
  finally have i: "\<bar>?b * ?c - cm * ?c\<bar> \<le> 1 / 2 ^ 42" .
  have "cm * ?c - cm * 300 / 2.54 = cm * (?c - 300 / 2.54)"
    by (simp add: algebra_simps)
  also have "\<bar>\<dots>\<bar> = cm * \<bar>?c - 300 / 2.54\<bar>"
    using assms by (simp add: abs_mult)
  also have "\<dots> \<le> 30 * \<bar>?c - 300 / 2.54\<bar>"
    using assms by (intro mult_right_mono) simp_all
  also have "\<dots> \<le> 1 / 2" by simp
  finally have d: "\<bar>cm * ?c - cm * 300 / 2.54\<bar> \<le> 1 / 2" .
  have "1 / 2 ^ 42 \<le> (1 / 4 :: real)"
    by simp
  with r i d have "\<bar>binary64 (?b * ?c) - cm * 300 / 2.54\<bar> \<le> 1"
    by linarith
  then show ?thesis
    unfolding spec_mapSize_px_def CM_TO_PIXEL_value by (intro Math_round_close) simp
qed

lemma default_cm_range:
  "0 \<le> DEFAULT_WIDTH_CM" "DEFAULT_WIDTH_CM \<le> 30" "0 \<le> DEFAULT_HEIGHT_CM" "DEFAULT_HEIGHT_CM \<le> 30"
  by code_simp+

lemma size_examples:
  "widthPx (dimensions 1 1) = 118"
  "binary64 (binary64 18.49547032427398 * CM_TO_PIXEL) = 4369 / 2"
  "widthPx (dimensions 18.49547032427398 1) = 2185"
  "widthPx (dimensions (- 18.49547032427398) 1) = - 2184"
  by code_simp+

lemma spec_examples:
  "spec_mapSize_px DEFAULT_WIDTH_CM CM_TO_PIXEL = 102"
  "spec_mapSize_px DEFAULT_HEIGHT_CM CM_TO_PIXEL = 44"
  by code_simp+

text \<open>
  Claim C3, as amended. The size in pixels is \<open>Math.round(cm * CM_TO_PIXEL)\<close>, where
  \<open>CM_TO_PIXEL\<close> is the double nearest to 118.11, already pixels per centimetre (300 dots
  per inch over 2.54), where the product is rounded to the nearest double before
  \<open>Math.round\<close> takes the nearest integer, halves upwards, and where nothing is divided by
  2.54 again. At the default size of 2.2 by 0.9557 centimetres this gives 260 by 113
  pixels. One centimetre gives 118 pixels; 18.49547032427398 centimetres give the product
  2184.5 and so 2185 pixels, and the negative of that length gives -2184. For a length
  between 0 and 30 centimetres the result is within one pixel of the specification's
  formula \<open>round(cm * dpi / 2.54)\<close> taken at 300 dots per inch.
\<close>

theorem size_in_pixels:
  "widthPx (dimensions wCm hCm) = Math_round (binary64 (binary64 wCm * CM_TO_PIXEL))
   \<and> heightPx (dimensions wCm hCm) = Math_round (binary64 (binary64 hCm * CM_TO_PIXEL))
   \<and> CM_TO_PIXEL = 8311252374823895 / 70368744177664
   \<and> widthPx (dimensions DEFAULT_WIDTH_CM DEFAULT_HEIGHT_CM) = 260
   \<and> heightPx (dimensions DEFAULT_WIDTH_CM DEFAULT_HEIGHT_CM) = 113
   \<and> widthPx (dimensions 1 1) = 118
   \<and> binary64 (binary64 18.49547032427398 * CM_TO_PIXEL) = 4369 / 2
   \<and> widthPx (dimensions 18.49547032427398 1) = 2185
   \<and> widthPx (dimensions (- 18.49547032427398) 1) = - 2184
   \<and> (0 \<le> wCm \<and> wCm \<le> 30 \<longrightarrow> \<bar>widthPx (dimensions wCm hCm) - spec_mapSize_px wCm 300\<bar> \<le> 1)
   \<and> (0 \<le> hCm \<and> hCm \<le> 30 \<longrightarrow> \<bar>heightPx (dimensions wCm hCm) - spec_mapSize_px hCm 300\<bar> \<le> 1)"
proof -
  have "widthPx (dimensions wCm hCm) = Math_round (binary64 (binary64 wCm * CM_TO_PIXEL))"
    "heightPx (dimensions wCm hCm) = Math_round (binary64 (binary64 hCm * CM_TO_PIXEL))"
    by (simp_all add: dimensions_def)
  moreover have "0 \<le> wCm \<and> wCm \<le> 30 \<longrightarrow> \<bar>widthPx (dimensions wCm hCm) - spec_mapSize_px wCm 300\<bar> \<le> 1"
    using px_close_to_300dpi [of wCm] by (simp add: dimensions_def)
  moreover have "0 \<le> hCm \<and> hCm \<le> 30 \<longrightarrow> \<bar>heightPx (dimensions wCm hCm) - spec_mapSize_px hCm 300\<bar> \<le> 1"
    using px_close_to_300dpi [of hCm] by (simp add: dimensions_def)
  ultimately show ?thesis
    using CM_TO_PIXEL_value default_size size_examples by blast
qed

text \<open>The default width and height lie between 0 and 30 centimetres.\<close>

theorem size_in_pixels_witness:
  "0 \<le> DEFAULT_WIDTH_CM \<and> DEFAULT_WIDTH_CM \<le> 30
   \<and> 0 \<le> DEFAULT_HEIGHT_CM \<and> DEFAULT_HEIGHT_CM \<le> 30
   \<and> widthPx (dimensions DEFAULT_WIDTH_CM DEFAULT_HEIGHT_CM) = 260
   \<and> heightPx (dimensions DEFAULT_WIDTH_CM DEFAULT_HEIGHT_CM) = 113
   \<and> \<bar>260 - spec_mapSize_px DEFAULT_WIDTH_CM 300\<bar> \<le> 1
   \<and> \<bar>113 - spec_mapSize_px DEFAULT_HEIGHT_CM 300\<bar> \<le> 1"
proof -
  note T = size_in_pixels [of DEFAULT_WIDTH_CM DEFAULT_HEIGHT_CM]
  from T have w: "widthPx (dimensions DEFAULT_WIDTH_CM DEFAULT_HEIGHT_CM) = 260"
    and h: "heightPx (dimensions DEFAULT_WIDTH_CM DEFAULT_HEIGHT_CM) = 113"
    by blast+
  from T default_cm_range
  have "\<bar>widthPx (dimensions DEFAULT_WIDTH_CM DEFAULT_HEIGHT_CM)
          - spec_mapSize_px DEFAULT_WIDTH_CM 300\<bar> \<le> 1"
    "\<bar>heightPx (dimensions DEFAULT_WIDTH_CM DEFAULT_HEIGHT_CM)
          - spec_mapSize_px DEFAULT_HEIGHT_CM 300\<bar> \<le> 1"
    by blast+
  then show ?thesis
    using default_cm_range by (simp add: w h)
qed

text \<open>
  The specification's formula with 118.11 in the place of the resolution gives 102 by 44
  pixels at the default size, far from the 260 by 113 the program computes.
\<close>

theorem size_formula_counterexample:
  "widthPx (dimensions DEFAULT_WIDTH_CM DEFAULT_HEIGHT_CM) = 260
   \<and> spec_mapSize_px DEFAULT_WIDTH_CM CM_TO_PIXEL = 102
   \<and> heightPx (dimensions DEFAULT_WIDTH_CM DEFAULT_HEIGHT_CM) = 113
   \<and> spec_mapSize_px DEFAULT_HEIGHT_CM CM_TO_PIXEL = 44
   \<and> \<not> \<bar>widthPx (dimensions DEFAULT_WIDTH_CM DEFAULT_HEIGHT_CM)
           - spec_mapSize_px DEFAULT_WIDTH_CM CM_TO_PIXEL\<bar> \<le> 1"
  by (simp add: default_size spec_examples)

subsection \<open>The generation pass in closed form\<close>

lemma fold_update_enumerate:
  "i + k + length ps \<le> length xs \<Longrightarrow>
   fold (\<lambda>(j, p) acc. acc[i + j := p]) (enumerate k ps) xs
     = take (i + k) xs @ ps @ drop (i + k + length ps) xs"
proof (induction ps arbitrary: k xs)
  case Nil
  then show ?case by simp
next
  case (Cons p ps)
  have "fold (\<lambda>(j, p) acc. acc[i + j := p]) (enumerate k (p # ps)) xs
      = fold (\<lambda>(j, p) acc. acc[i + j := p]) (enumerate (Suc k) ps) (xs[i + k := p])"
    by simp
  also have "\<dots> = take (i + Suc k) (xs[i + k := p]) @ ps @ drop (i + Suc k + length ps) (xs[i + k := p])"
    using Cons.prems by (intro Cons.IH) simp
  also have "\<dots> = take (i + k) xs @ (p # ps) @ drop (i + k + length (p # ps)) xs"
    using Cons.prems by (simp add: take_Suc_conv_app_nth)
  finally show ?case .
qed

lemma write_back_eq:
  "i + length ps \<le> length xs \<Longrightarrow> write_back i ps xs = take i xs @ ps @ drop (i + length ps) xs"
  using fold_update_enumerate [of i 0 ps xs] by (simp add: write_back_def)

lemma length_processed_upto [simp]: "length (processed_upto f m bs) = length bs"
  by (simp add: processed_upto_def)

lemma chunk_step:
  assumes "i \<le> length bs"
  shows "write_back i (map f (slice (processed_upto f i bs) i (i + b))) (processed_upto f i bs)
         = processed_upto f (i + b) bs"
proof -
  let ?xs = "processed_upto f i bs"
  have d: "drop i ?xs = drop i bs" and t: "take i ?xs = map f (take i bs)"
    using assms by (simp_all add: processed_upto_def)
  have s: "slice ?xs i (i + b) = take b (drop i bs)"
    by (simp add: slice_def d)
  have len: "i + length (map f (take b (drop i bs))) \<le> length ?xs"
    using assms by simp
  have "write_back i (map f (slice ?xs i (i + b))) ?xs
        = take i ?xs @ map f (take b (drop i bs)) @ drop (i + length (map f (take b (drop i bs)))) ?xs"
    unfolding s by (rule write_back_eq [OF len])
  also have "drop (i + length (map f (take b (drop i bs)))) ?xs
             = drop (length (map f (take b (drop i bs)))) (drop i ?xs)"
    by (simp add: add.commute)
  also have "\<dots> = drop (i + b) bs"
    unfolding d by (cases "b \<le> length bs - i") (simp_all add: add.commute min_def)
  finally show ?thesis
    using assms by (simp add: t processed_upto_def take_add)
qed

lemma chunk_count_step:
  assumes "i < n"
  shows "chunk_count (n - i) = Suc (chunk_count (n - (i + BATCH_SIZE)))"
proof (cases "n - i < 50")
  case True
  have "(n - i + 49) div 50 = 1"
    using assms True by (intro div_nat_eqI) simp_all
  moreover have "n - (i + 50) = 0"
    using True by simp
  ultimately show ?thesis
    by (simp add: chunk_count_def BATCH_SIZE_def)
next
  case False
  then have "n - i + 49 = (n - (i + 50) + 49) + 50"
    by simp
  then have "(n - i + 49) div 50 = Suc ((n - (i + 50) + 49) div 50)"
    by (simp only: div_add_self2)
  then show ?thesis
    by (simp add: chunk_count_def BATCH_SIZE_def)
qed

lemma map_upt_Suc': "map g [0..<Suc m] = g 0 # map (\<lambda>k. g (Suc k)) [0..<m]"
  by (simp only: map_upt_Suc)

lemma generate_loop_closed:
  "generate_loop enc fmt dims sn bs i (processed_upto (process_entry enc fmt dims sn) i bs)
   = concat (map (\<lambda>k. chunk_effects (process_entry enc fmt dims sn) bs (i + k * BATCH_SIZE))
               [0..<chunk_count (length bs - i)])"
proof (induction "length bs - i" arbitrary: i rule: less_induct)
  case less
  let ?f = "process_entry enc fmt dims sn"
  show ?case
  proof (cases "i < length bs")
    case False
    then show ?thesis
      by (subst generate_loop.simps) (simp add: chunk_count_def BATCH_SIZE_def)
  next
    case True
    then have step: "write_back i (map ?f (slice (processed_upto ?f i bs) i (i + BATCH_SIZE)))
                       (processed_upto ?f i bs) = processed_upto ?f (i + BATCH_SIZE) bs"
      by (intro chunk_step) simp
    have IH: "generate_loop enc fmt dims sn bs (i + BATCH_SIZE) (processed_upto ?f (i + BATCH_SIZE) bs)
              = concat (map (\<lambda>k. chunk_effects ?f bs (i + BATCH_SIZE + k * BATCH_SIZE))
                          [0..<chunk_count (length bs - (i + BATCH_SIZE))])"
      using True by (intro less) (simp add: BATCH_SIZE_def)
    have "generate_loop enc fmt dims sn bs i (processed_upto ?f i bs)
          = chunk_effects ?f bs i
            @ generate_loop enc fmt dims sn bs (i + BATCH_SIZE) (processed_upto ?f (i + BATCH_SIZE) bs)"
      using True by (subst generate_loop.simps) (simp add: step chunk_effects_def Let_def)
    also have "\<dots> = concat (map (\<lambda>k. chunk_effects ?f bs (i + k * BATCH_SIZE))
                          [0..<Suc (chunk_count (length bs - (i + BATCH_SIZE)))])"
      unfolding IH map_upt_Suc' by (simp add: ac_simps)
    finally show ?thesis
      using True chunk_count_step [of i "length bs"] by simp
  qed
qed

lemma processed_upto_0 [simp]: "processed_upto f 0 bs = bs"
  by (simp add: processed_upto_def)

lemma processed_upto_all: "length bs \<le> m \<Longrightarrow> processed_upto f m bs = map f bs"
  by (simp add: processed_upto_def)

lemma generateBarcodes_closed:
  "generateBarcodes enc s =
     [SetIsGenerating True, SetProgress \<lparr>current = 0, total_n = count_valid (barcodes s)\<rparr>]
     @ concat (map (\<lambda>k. chunk_effects (pass_callback enc s) (barcodes s) (k * BATCH_SIZE))
                 [0..<chunk_count (length (barcodes s))])
     @ [SetIsGenerating False, SetProgress \<lparr>current = 0, total_n = 0\<rparr>]"
  using generate_loop_closed [of enc "exportFormat s" "dimensions (widthCm s) (heightCm s)"
      "showNumbers s" "barcodes s" 0]
  by (simp add: generateBarcodes_def pass_callback_def Let_def)

lemma published_progress_append:
  "published_progress (xs @ ys) = published_progress xs @ published_progress ys"
  by (induction xs rule: published_progress.induct) simp_all

lemma published_progress_chunks:
  "published_progress (concat (map (\<lambda>k. chunk_effects f bs (g k)) ks))
   = map (\<lambda>k. \<lparr>current = min (g k + BATCH_SIZE) (count_valid (processed_upto f (g k + BATCH_SIZE) bs)),
                 total_n = count_valid bs\<rparr>) ks"
  by (induction ks) (simp_all add: published_progress_append chunk_effects_def)

lemma published_progress_pass:
  "published_progress (generateBarcodes enc s)
   = \<lparr>current = 0, total_n = count_valid (barcodes s)\<rparr>
     # map (progress_after enc s) [0..<chunk_count (length (barcodes s))]
     @ [\<lparr>current = 0, total_n = 0\<rparr>]"
  by (simp add: generateBarcodes_closed published_progress_append published_progress_chunks
        progress_after_def snapshot_after_def add.commute)

lemma fold_chunks_barcodes:
  "barcodes (fold apply_effect (concat (map (\<lambda>k. chunk_effects f bs (g k)) ks)) s)
   = (if ks = [] then barcodes s else processed_upto f (g (last ks) + BATCH_SIZE) bs)"
  by (induction ks rule: rev_induct) (simp_all add: chunk_effects_def)

lemma chunk_count_covers: "n \<le> chunk_count n * BATCH_SIZE"
proof -
  have "n + 49 = (n + 49) div 50 * 50 + (n + 49) mod 50"
    by simp
  moreover have "(n + 49) mod 50 < 50"
    by simp
  ultimately have "n \<le> (n + 49) div 50 * 50"
    by linarith
  then show ?thesis
    by (simp add: chunk_count_def BATCH_SIZE_def)
qed

lemma chunk_count_0: "chunk_count n = 0 \<longleftrightarrow> n = 0"
  using chunk_count_covers [of n] by (auto simp: chunk_count_def BATCH_SIZE_def)

lemma run_pass_barcodes:
  "barcodes (run_pass enc s) = map (pass_callback enc s) (barcodes s)"
proof (cases "barcodes s = []")
  case True
  then show ?thesis
    by (simp add: run_pass_def generateBarcodes_closed chunk_count_def BATCH_SIZE_def)
next
  case False
  let ?n = "chunk_count (length (barcodes s))"
  from False have pos: "0 < ?n"
    using chunk_count_0 [of "length (barcodes s)"] by simp
  then have l: "last [0..<?n] = ?n - 1" and ne: "[0..<?n] \<noteq> []"
    by (simp_all add: last_upt)
  have "(?n - 1) * BATCH_SIZE + BATCH_SIZE = ?n * BATCH_SIZE"
    using pos by (cases ?n) simp_all
  then have "length (barcodes s) \<le> (?n - 1) * BATCH_SIZE + BATCH_SIZE"
    using chunk_count_covers [of "length (barcodes s)"] by simp
  then show ?thesis
    using ne l
    by (simp add: run_pass_def generateBarcodes_closed fold_chunks_barcodes processed_upto_all)
qed

lemma run_pass_idle:
  "isGenerating (run_pass enc s) = False \<and> progress (run_pass enc s) = \<lparr>current = 0, total_n = 0\<rparr>"
  by (simp add: run_pass_def generateBarcodes_closed)

lemma published_barcodes_append:
  "published_barcodes (xs @ ys) = published_barcodes xs @ published_barcodes ys"
  by (induction xs rule: published_barcodes.induct) simp_all

lemma published_barcodes_chunks:
  "published_barcodes (concat (map (\<lambda>k. chunk_effects f bs (g k)) ks))
   = map (\<lambda>k. processed_upto f (g k + BATCH_SIZE) bs) ks"
  by (induction ks) (simp_all add: published_barcodes_append chunk_effects_def)

lemma published_barcodes_pass:
  "published_barcodes (generateBarcodes enc s)
   = map (snapshot_after enc s) [0..<chunk_count (length (barcodes s))]"
  by (simp add: generateBarcodes_closed published_barcodes_append published_barcodes_chunks
        snapshot_after_def add.commute)

lemma length_chunk_effects:
  "length (concat (map (\<lambda>k. chunk_effects f bs (g k)) ks)) = 3 * length ks"
  by (induction ks) (simp_all add: chunk_effects_def)

lemma length_generateBarcodes:
  "length (generateBarcodes enc s) = 3 * chunk_count (length (barcodes s)) + 4"
  by (simp add: generateBarcodes_closed length_chunk_effects del: length_concat)

subsection \<open>Entries through a pass\<close>

lemma generateSingleBarcode_number [simp]:
  "number (generateSingleBarcode enc b fmt dims sn) = number b"
  by (auto simp: generateSingleBarcode_def render_png_def render_svg_def Let_def
           split: option.splits)

lemma process_entry_number [simp]: "number (process_entry enc fmt dims sn b) = number b"
  by (simp add: process_entry_def)

lemma pass_callback_number [simp]: "number (pass_callback enc s b) = number b"
  by (simp add: pass_callback_def)

lemma pass_callback_invalid: "\<not> valid b \<Longrightarrow> pass_callback enc s b = b"
  by (simp add: pass_callback_def process_entry_def)

lemma generateSingleBarcode_throws:
  "encoder_throws enc fmt (number b) (barcodeOptions (widthPx dims) (heightPx dims) sn) \<Longrightarrow>
   generateSingleBarcode enc b fmt dims sn
     = b\<lparr>valid := False, error := Some ''Generation failed'', dataUrl := None, svgString := None\<rparr>"
  by (cases fmt)
     (simp_all add: encoder_throws_def generateSingleBarcode_def render_png_def render_svg_def)

lemma map_number_processed_upto:
  assumes "\<And>b. number (f b) = number b"
  shows "map number (processed_upto f m bs) = map number bs"
proof -
  have "map number (processed_upto f m bs)
        = map (number \<circ> f) (take m bs) @ map number (drop m bs)"
    by (simp add: processed_upto_def)
  also have "number \<circ> f = number"
    using assms by (simp add: fun_eq_iff)
  also have "map number (take m bs) @ map number (drop m bs) = map number (take m bs @ drop m bs)"
    by (simp only: map_append)
  finally show ?thesis
    by (simp only: append_take_drop_id)
qed

lemma good_entry_eq:
  "good_entry = \<lparr>number = ''012345678905'', valid = True, error = None, dataUrl = None, svgString = None\<rparr>"
  by (simp add: good_entry_def processLine_def validateBarcode_def digits_then_end_iff is_digit_def)

lemma bad_entry_eq:
  "bad_entry = \<lparr>number = ''bad'', valid = False, error = Some ''Invalid: must be 12 digits'',
                 dataUrl = None, svgString = None\<rparr>"
  by (simp add: bad_entry_def processLine_def validateBarcode_def digits_then_end_iff)

lemma wrong_check_digit_eq:
  "processLine ''012345678900''
   = \<lparr>number = ''012345678900'', valid = True, error = None, dataUrl = None, svgString = None\<rparr>"
  by (simp add: processLine_def validateBarcode_def digits_then_end_iff is_digit_def)

lemma chunk_count_51: "chunk_count 51 = 2"
  by (simp add: chunk_count_def BATCH_SIZE_def)

text \<open>
  Claim C6. When the encoder throws for a valid entry of the list, the pass returns that
  entry with \<open>valid\<close> false, the reason \<open>Generation failed\<close> and both artifact fields
  null. The pass goes on: the list keeps its length, every entry of the result is what
  the callback makes of the entry at the same index on its own, every chunk publishes its
  three effects, and the pass ends idle with the progress reset.
\<close>

theorem render_failure_is_isolated:
  assumes "k < length (barcodes s)" and "valid (barcodes s ! k)"
    and "encoder_throws enc (exportFormat s) (number (barcodes s ! k))
           (barcodeOptions (widthPx (dimensions (widthCm s) (heightCm s)))
              (heightPx (dimensions (widthCm s) (heightCm s))) (showNumbers s))"
  shows "barcodes (run_pass enc s) ! k
           = (barcodes s ! k)\<lparr>valid := False, error := Some ''Generation failed'',
                                dataUrl := None, svgString := None\<rparr>
         \<and> length (barcodes (run_pass enc s)) = length (barcodes s)
         \<and> (\<forall>j < length (barcodes s).
               barcodes (run_pass enc s) ! j = pass_callback enc s (barcodes s ! j))
         \<and> length (generateBarcodes enc s) = 3 * chunk_count (length (barcodes s)) + 4
         \<and> isGenerating (run_pass enc s) = False
         \<and> progress (run_pass enc s) = \<lparr>current = 0, total_n = 0\<rparr>"
proof -
  have "pass_callback enc s (barcodes s ! k)
        = (barcodes s ! k)\<lparr>valid := False, error := Some ''Generation failed'',
                             dataUrl := None, svgString := None\<rparr>"
    using assms(2,3) by (simp add: pass_callback_def process_entry_def generateSingleBarcode_throws)
  then show ?thesis
    using assms(1) by (simp add: run_pass_barcodes run_pass_idle length_generateBarcodes)
qed

text \<open>An encoder that throws for the first of two codes: the second is still rendered.\<close>

theorem render_failure_witness:
  "barcodes (run_pass picky_encoder two_codes) ! 0
     = \<lparr>number = ''012345678900'', valid = False, error = Some ''Generation failed'',
        dataUrl = None, svgString = None\<rparr>
   \<and> valid (barcodes (run_pass picky_encoder two_codes) ! 1)
   \<and> dataUrl (barcodes (run_pass picky_encoder two_codes) ! 1) \<noteq> None
   \<and> isGenerating (run_pass picky_encoder two_codes) = False"
proof -
  have a: "0 < length (barcodes two_codes)" "valid (barcodes two_codes ! 0)"
    by (simp_all add: two_codes_def wrong_check_digit_eq)
  have b: "encoder_throws picky_encoder (exportFormat two_codes) (number (barcodes two_codes ! 0))
           (barcodeOptions (widthPx (dimensions (widthCm two_codes) (heightCm two_codes)))
              (heightPx (dimensions (widthCm two_codes) (heightCm two_codes))) (showNumbers two_codes))"
    by (simp add: two_codes_def wrong_check_digit_eq encoder_throws_def initial_state_def picky_encoder_def)
  have c: "pass_callback picky_encoder two_codes good_entry
           = generateSingleBarcode picky_encoder good_entry PNG
               (dimensions DEFAULT_WIDTH_CM DEFAULT_HEIGHT_CM) True"
    by (simp add: pass_callback_def process_entry_def two_codes_def initial_state_def good_entry_eq)
  have d: "valid (generateSingleBarcode picky_encoder good_entry PNG
               (dimensions DEFAULT_WIDTH_CM DEFAULT_HEIGHT_CM) True)
           \<and> dataUrl (generateSingleBarcode picky_encoder good_entry PNG
               (dimensions DEFAULT_WIDTH_CM DEFAULT_HEIGHT_CM) True) \<noteq> None"
    by (simp add: generateSingleBarcode_def render_png_def picky_encoder_def accepting_encoder_def
          good_entry_eq Let_def)
  show ?thesis
    using render_failure_is_isolated [OF a b] c d
    by (simp add: two_codes_def wrong_check_digit_eq)
qed

text \<open>
  Claim C7. After a full pass the code numbers of the entry list are those of the input,
  in the same order, so the entry at index \<open>k\<close> of the result corresponds to the input
  entry at index \<open>k\<close>. The same holds for the list published after each chunk, when the
  list spans several chunks.
\<close>

theorem input_order_preserved:
  "map number (barcodes (run_pass enc s)) = map number (barcodes s)
   \<and> published_barcodes (generateBarcodes enc s)
       = map (snapshot_after enc s) [0..<chunk_count (length (barcodes s))]
   \<and> (\<forall>k < chunk_count (length (barcodes s)).
         map number (snapshot_after enc s k) = map number (barcodes s))
   \<and> (\<forall>k < length (barcodes s).
         number (barcodes (run_pass enc s) ! k) = number (barcodes s ! k))"
proof -
  have final: "map number (barcodes (run_pass enc s)) = map number (barcodes s)"
    by (simp add: run_pass_barcodes)
  have "number (barcodes (run_pass enc s) ! k) = number (barcodes s ! k)"
    if "k < length (barcodes s)" for k
    using that by (simp add: run_pass_barcodes)
  moreover have "map number (snapshot_after enc s k) = map number (barcodes s)" for k
    unfolding snapshot_after_def by (rule map_number_processed_upto) simp
  ultimately show ?thesis
    using final published_barcodes_pass by blast
qed

text \<open>Fifty-one entries, in two chunks.\<close>

theorem input_order_witness:
  "(1::nat) < chunk_count (length (barcodes fifty_bad_one_good))
   \<and> map number (snapshot_after accepting_encoder fifty_bad_one_good 1)
       = replicate 50 ''bad'' @ [''012345678905'']
   \<and> (50::nat) < length (barcodes fifty_bad_one_good)
   \<and> number (barcodes (run_pass accepting_encoder fifty_bad_one_good) ! 50) = ''012345678905''"
proof -
  have len: "length (barcodes fifty_bad_one_good) = 51"
    by (simp add: fifty_bad_one_good_def)
  have nth: "barcodes fifty_bad_one_good ! 50 = good_entry"
    by (simp add: fifty_bad_one_good_def nth_append)
  have nums: "map number (barcodes fifty_bad_one_good) = replicate 50 ''bad'' @ [''012345678905'']"
    by (simp add: fifty_bad_one_good_def good_entry_eq bad_entry_eq)
  show ?thesis
    using input_order_preserved [of accepting_encoder fifty_bad_one_good]
    by (simp add: len nth nums chunk_count_51 good_entry_eq)
qed

text \<open>
  Claim C10. A pass never adds, removes or renames entries: the result has the length of
  the input, the entry at each index keeps its number, and an entry that was invalid when
  the pass started is returned unchanged in every field.
\<close>

theorem pass_frame:
  "length (barcodes (run_pass enc s)) = length (barcodes s)
   \<and> (\<forall>k < length (barcodes s).
         number (barcodes (run_pass enc s) ! k) = number (barcodes s ! k)
         \<and> (\<not> valid (barcodes s ! k) \<longrightarrow> barcodes (run_pass enc s) ! k = barcodes s ! k))"
  by (simp add: run_pass_barcodes pass_callback_invalid)

theorem pass_frame_witness:
  "length (barcodes (run_pass accepting_encoder fifty_bad_one_good)) = 51
   \<and> \<not> valid (barcodes fifty_bad_one_good ! 0)
   \<and> barcodes (run_pass accepting_encoder fifty_bad_one_good) ! 0 = bad_entry
   \<and> number (barcodes (run_pass accepting_encoder fifty_bad_one_good) ! 50) = ''012345678905''"
proof -
  have len: "length (barcodes fifty_bad_one_good) = 51"
    by (simp add: fifty_bad_one_good_def)
  have nth: "barcodes fifty_bad_one_good ! 50 = good_entry" "barcodes fifty_bad_one_good ! 0 = bad_entry"
    by (simp_all add: fifty_bad_one_good_def nth_append)
  show ?thesis
    using pass_frame [of accepting_encoder fifty_bad_one_good]
    by (simp add: len nth good_entry_eq bad_entry_eq)
qed

subsection \<open>Progress\<close>

lemma count_valid_append [simp]: "count_valid (xs @ ys) = count_valid xs + count_valid ys"
  by (simp add: count_valid_def)

lemma count_valid_take_drop: "count_valid (take m bs) + count_valid (drop m bs) = count_valid bs"
  using count_valid_append [of "take m bs" "drop m bs"] by simp

lemma pass_callback_valid_imp: "valid (pass_callback enc s b) \<Longrightarrow> valid b"
  by (auto simp: pass_callback_def process_entry_def split: if_splits)

lemma count_valid_map_le:
  "(\<And>b. valid (f b) \<Longrightarrow> valid b) \<Longrightarrow> count_valid (map f xs) \<le> count_valid xs"
  by (induction xs) (auto simp: count_valid_def)

lemma count_valid_map_eq:
  "(\<And>b. b \<in> set xs \<Longrightarrow> valid (f b) = valid b) \<Longrightarrow> count_valid (map f xs) = count_valid xs"
  by (induction xs) (auto simp: count_valid_def)

lemma count_valid_snapshot_le: "count_valid (snapshot_after enc s k) \<le> count_valid (barcodes s)"
proof -
  have "count_valid (map (pass_callback enc s) (take m (barcodes s))) \<le> count_valid (take m (barcodes s))" for m
    by (rule count_valid_map_le) (rule pass_callback_valid_imp)
  then show ?thesis
    using count_valid_take_drop [of "Suc k * BATCH_SIZE" "barcodes s"]
    by (simp add: snapshot_after_def processed_upto_def del: mult_Suc)
      (metis add_le_mono1)
qed

lemma count_valid_snapshot_eq:
  assumes "\<forall>b\<in>set (barcodes s). valid b \<longrightarrow> valid (pass_callback enc s b)"
  shows "count_valid (snapshot_after enc s k) = count_valid (barcodes s)"
proof -
  have "valid (pass_callback enc s b) = valid b" if "b \<in> set (barcodes s)" for b
    using that assms pass_callback_valid_imp by blast
  then have "count_valid (map (pass_callback enc s) (take m (barcodes s))) = count_valid (take m (barcodes s))" for m
    by (intro count_valid_map_eq) (auto dest: in_set_takeD)
  then show ?thesis
    using count_valid_take_drop [of "Suc k * BATCH_SIZE" "barcodes s"]
    by (simp add: snapshot_after_def processed_upto_def del: mult_Suc)
qed

lemma count_valid_all:
  "\<forall>b\<in>set bs. valid b \<Longrightarrow> count_valid bs = length bs"
  by (simp add: count_valid_def)

lemma chunk_count_le_iff: "chunk_count n \<le> q \<longleftrightarrow> n \<le> q * BATCH_SIZE"
proof -
  have "(n + 49) div 50 < Suc q \<longleftrightarrow> n + 49 < Suc q * 50"
    by (rule div_less_iff_less_mult) simp
  then show ?thesis
    by (simp add: chunk_count_def BATCH_SIZE_def less_Suc_eq_le) 
qed

lemma progress_after_fields:
  "total_n (progress_after enc s k) = count_valid (barcodes s)"
  "current (progress_after enc s k) = min (Suc k * BATCH_SIZE) (count_valid (snapshot_after enc s k))"
  by (simp_all add: progress_after_def)

lemma progress_after_capped: "current (progress_after enc s k) \<le> total_n (progress_after enc s k)"
  using count_valid_snapshot_le [of enc s k]
  by (simp add: progress_after_fields del: mult_Suc)

lemma progress_no_failure:
  assumes "\<forall>b\<in>set (barcodes s). valid b \<longrightarrow> valid (pass_callback enc s b)"
  shows "current (progress_after enc s k) = min (Suc k * BATCH_SIZE) (count_valid (barcodes s))"
  by (simp add: progress_after_fields count_valid_snapshot_eq [OF assms] del: mult_Suc)

lemma count_valid_le_length: "count_valid bs \<le> length bs"
  by (simp add: count_valid_def)

lemma upt_0_2: "[0..<2] = [0, Suc 0]"
  by (simp add: upt_rec numeral_2_eq_2)

lemma accepting_good_entry:
  "valid (pass_callback accepting_encoder s good_entry)"
  by (cases "exportFormat s")
     (simp_all add: pass_callback_def process_entry_def generateSingleBarcode_def render_png_def
        render_svg_def accepting_encoder_def good_entry_eq Let_def)

text \<open>
  Claim C1, as amended. The values handed to \<open>setProgress\<close> during a pass are, in order:
  zero of the number of entries valid at the start; after the chunk that starts at index
  \<open>i\<close>, the smaller of \<open>i + 50\<close> and the number of entries valid in the list published
  after that chunk, of the same total; and at the end zero of zero. So \<open>current\<close> never exceeds
  \<open>total\<close>, and entries invalid at the start are not counted in \<open>total\<close>. When no render
  fails during the pass, \<open>current\<close> is the smaller of \<open>i + 50\<close> and \<open>total\<close>, it does not
  decrease from chunk to chunk, and it equals \<open>total\<close> from the final chunk on. When
  moreover every entry is valid, \<open>current\<close> is the number of valid entries processed so
  far and equals \<open>total\<close> at the final chunk and at no earlier one.
\<close>

theorem progress_of_a_pass:
  "published_progress (generateBarcodes enc s)
     = \<lparr>current = 0, total_n = count_valid (barcodes s)\<rparr>
       # map (progress_after enc s) [0..<chunk_count (length (barcodes s))]
       @ [\<lparr>current = 0, total_n = 0\<rparr>]
   \<and> published_barcodes (generateBarcodes enc s)
       = map (snapshot_after enc s) [0..<chunk_count (length (barcodes s))]
   \<and> (\<forall>k. total_n (progress_after enc s k) = count_valid (barcodes s)
          \<and> current (progress_after enc s k)
              = min (Suc k * BATCH_SIZE) (count_valid (snapshot_after enc s k))
          \<and> current (progress_after enc s k) \<le> total_n (progress_after enc s k))
   \<and> ((\<forall>b\<in>set (barcodes s). valid b \<longrightarrow> valid (pass_callback enc s b)) \<longrightarrow>
        (\<forall>k. current (progress_after enc s k)
              = min (Suc k * BATCH_SIZE) (count_valid (barcodes s)))
        \<and> (\<forall>j k. j \<le> k \<longrightarrow> current (progress_after enc s j) \<le> current (progress_after enc s k))
        \<and> (\<forall>k. chunk_count (length (barcodes s)) \<le> Suc k \<longrightarrow>
               current (progress_after enc s k) = total_n (progress_after enc s k)))
   \<and> ((\<forall>b\<in>set (barcodes s). valid b \<and> valid (pass_callback enc s b)) \<longrightarrow>
        (\<forall>k. current (progress_after enc s k)
              = count_valid (take (Suc k * BATCH_SIZE) (barcodes s)))
        \<and> (\<forall>k. current (progress_after enc s k) = total_n (progress_after enc s k)
               \<longleftrightarrow> chunk_count (length (barcodes s)) \<le> Suc k))"
proof -
  let ?bs = "barcodes s" and ?n = "chunk_count (length (barcodes s))"
  have A: "\<forall>k. total_n (progress_after enc s k) = count_valid ?bs
          \<and> current (progress_after enc s k)
              = min (Suc k * BATCH_SIZE) (count_valid (snapshot_after enc s k))
          \<and> current (progress_after enc s k) \<le> total_n (progress_after enc s k)"
    using progress_after_capped by (simp add: progress_after_fields del: mult_Suc)
  have B: "(\<forall>k. current (progress_after enc s k) = min (Suc k * BATCH_SIZE) (count_valid ?bs))
        \<and> (\<forall>j k. j \<le> k \<longrightarrow> current (progress_after enc s j) \<le> current (progress_after enc s k))
        \<and> (\<forall>k. ?n \<le> Suc k \<longrightarrow>
               current (progress_after enc s k) = total_n (progress_after enc s k))"
    if nf: "\<forall>b\<in>set ?bs. valid b \<longrightarrow> valid (pass_callback enc s b)"
  proof (intro conjI allI impI)
    fix k
    show "current (progress_after enc s k) = min (Suc k * BATCH_SIZE) (count_valid ?bs)"
      by (rule progress_no_failure [OF nf])
  next
    fix j k :: nat
    assume "j \<le> k"
    then have "Suc j * BATCH_SIZE \<le> Suc k * BATCH_SIZE"
      by simp
    then show "current (progress_after enc s j) \<le> current (progress_after enc s k)"
      unfolding progress_no_failure [OF nf] by (simp add: min_le_iff_disj del: mult_Suc)
  next
    fix k
    assume "?n \<le> Suc k"
    then have "length ?bs \<le> Suc k * BATCH_SIZE"
      by (simp only: chunk_count_le_iff)
    then have "count_valid ?bs \<le> Suc k * BATCH_SIZE"
      using count_valid_le_length [of ?bs] by linarith
    then show "current (progress_after enc s k) = total_n (progress_after enc s k)"
      unfolding progress_no_failure [OF nf] progress_after_fields(1) by (simp del: mult_Suc)
  qed
  have C: "(\<forall>k. current (progress_after enc s k) = count_valid (take (Suc k * BATCH_SIZE) ?bs))
        \<and> (\<forall>k. current (progress_after enc s k) = total_n (progress_after enc s k)
               \<longleftrightarrow> ?n \<le> Suc k)"
    if av: "\<forall>b\<in>set ?bs. valid b \<and> valid (pass_callback enc s b)"
  proof -
    from av have nf: "\<forall>b\<in>set ?bs. valid b \<longrightarrow> valid (pass_callback enc s b)"
      by blast
    from av have all: "count_valid ?bs = length ?bs"
      by (intro count_valid_all) blast
    have tk: "count_valid (take m ?bs) = min m (length ?bs)" for m
    proof -
      have "\<forall>b\<in>set (take m ?bs). valid b"
        using av by (auto dest: in_set_takeD)
      then have "count_valid (take m ?bs) = length (take m ?bs)"
        by (rule count_valid_all)
      then show ?thesis
        by (simp add: min.commute)
    qed
    have cur: "current (progress_after enc s k) = min (Suc k * BATCH_SIZE) (length ?bs)" for k
      unfolding progress_no_failure [OF nf] all ..
    show ?thesis
      unfolding cur tk progress_after_fields(1) all chunk_count_le_iff
      by (auto simp del: mult_Suc)
  qed
  from A B C published_progress_pass [of enc s] published_barcodes_pass [of enc s] show ?thesis
    by blast
qed

text \<open>Fifty-one valid entries, all rendered: 50 of 51, then 51 of 51.\<close>

theorem progress_witness:
  "valid good_entry \<and> valid (pass_callback accepting_encoder fifty_one_good good_entry)
   \<and> map current (published_progress (generateBarcodes accepting_encoder fifty_one_good))
       = [0, 50, 51, 0]
   \<and> map total_n (published_progress (generateBarcodes accepting_encoder fifty_one_good))
       = [51, 51, 51, 0]"
proof -
  have vg: "valid good_entry"
    by (simp add: good_entry_eq)
  have hyp: "\<forall>b\<in>set (barcodes fifty_one_good).
               valid b \<and> valid (pass_callback accepting_encoder fifty_one_good b)"
    by (simp add: fifty_one_good_def vg accepting_good_entry)
  note T = progress_of_a_pass [of accepting_encoder fifty_one_good]
  from T hyp have cur: "current (progress_after accepting_encoder fifty_one_good k)
      = count_valid (take (Suc k * BATCH_SIZE) (barcodes fifty_one_good))" for k
    by blast
  from T have tot: "total_n (progress_after accepting_encoder fifty_one_good k)
      = count_valid (barcodes fifty_one_good)" for k
    by blast
  from T have lst: "published_progress (generateBarcodes accepting_encoder fifty_one_good)
     = \<lparr>current = 0, total_n = count_valid (barcodes fifty_one_good)\<rparr>
       # map (progress_after accepting_encoder fifty_one_good)
           [0..<chunk_count (length (barcodes fifty_one_good))]
       @ [\<lparr>current = 0, total_n = 0\<rparr>]"
    by blast
  have len: "length (barcodes fifty_one_good) = 51"
    by (simp add: fifty_one_good_def)
  have cv: "count_valid (replicate m good_entry) = m" for m
    by (simp add: count_valid_def vg)
  have c0: "current (progress_after accepting_encoder fifty_one_good 0) = 50"
    and c1: "current (progress_after accepting_encoder fifty_one_good (Suc 0)) = 51"
    and t: "count_valid (barcodes fifty_one_good) = 51"
    unfolding cur by (simp_all add: fifty_one_good_def cv BATCH_SIZE_def)
  show ?thesis
    unfolding lst len chunk_count_51 upt_0_2
    by (simp add: c0 c1 tot t vg accepting_good_entry)
qed

text \<open>
  Fifty invalid entries before one valid entry. After the first chunk no valid entry has
  been processed, yet the published \<open>current\<close> is 1 and equals \<open>total\<close>; it equals \<open>total\<close>
  again after the second chunk.
\<close>

theorem progress_counterexample:
  "published_progress (generateBarcodes accepting_encoder fifty_bad_one_good)
     = [\<lparr>current = 0, total_n = 1\<rparr>, \<lparr>current = 1, total_n = 1\<rparr>,
        \<lparr>current = 1, total_n = 1\<rparr>, \<lparr>current = 0, total_n = 0\<rparr>]
   \<and> count_valid (take 50 (barcodes fifty_bad_one_good)) = 0"
proof -
  have len: "length (barcodes fifty_bad_one_good) = 51"
    by (simp add: fifty_bad_one_good_def)
  have vg: "valid good_entry" and vb: "\<not> valid bad_entry"
    by (simp_all add: good_entry_eq bad_entry_eq)
  have cb: "count_valid (replicate m bad_entry) = 0" for m
    by (simp add: count_valid_def vb)
  have fb: "pass_callback accepting_encoder fifty_bad_one_good bad_entry = bad_entry"
    using vb by (rule pass_callback_invalid)
  have c1: "count_valid [good_entry] = 1"
    "count_valid [pass_callback accepting_encoder fifty_bad_one_good good_entry] = 1"
    by (simp_all add: count_valid_def vg accepting_good_entry)
  have bs: "barcodes fifty_bad_one_good = replicate 50 bad_entry @ [good_entry]"
    by (simp add: fifty_bad_one_good_def)
  have s0: "count_valid (snapshot_after accepting_encoder fifty_bad_one_good 0) = 1"
    by (simp add: snapshot_after_def processed_upto_def BATCH_SIZE_def bs fb cb c1)
  have s1: "count_valid (snapshot_after accepting_encoder fifty_bad_one_good (Suc 0)) = 1"
    by (simp add: snapshot_after_def processed_upto_def BATCH_SIZE_def bs fb cb c1)
  have tot: "count_valid (barcodes fifty_bad_one_good) = 1"
    by (simp add: bs cb c1)
  have "count_valid (take 50 (barcodes fifty_bad_one_good)) = 0"
    by (simp add: bs cb)
  then show ?thesis
    unfolding published_progress_pass len chunk_count_51 upt_0_2
    by (simp add: progress_after_def s0 s1 tot BATCH_SIZE_def)
qed

subsection \<open>Output at the target size\<close>

lemma render_png_resized:
  assumes "on_canvas enc (number b) opts = Some c"
    and "canvas_width c \<noteq> w \<or> canvas_height c \<noteq> h"
  shows "render_png enc b w h opts
         = Some (b\<lparr>dataUrl := Some (Canvas w h
                     [FillRect ''white'' 0 0 w h,
                      DrawImage (fillRect ''white'' 0 0 (canvas_width c) (canvas_height c) c)
                        ((w - canvas_width c) div 2) ((h - canvas_height c) div 2) False]),
                   svgString := None\<rparr>)"
  using assms by (auto simp: render_png_def fillRect_def drawImage_def Let_def)

lemma render_svg_document:
  assumes "on_svg enc (number b) opts = Some t"
  shows "render_svg enc b w h opts
         = Some (b\<lparr>dataUrl := None,
                   svgString := Some (Element ''svg''
                     [(''width'', Num w), (''height'', Num h), (''viewBox'', ViewBox 0 0 w h),
                      (''xmlns'', Str ''http://www.w3.org/2000/svg'')]
                     (Element ''rect''
                        [(''width'', Num w), (''height'', Num h), (''fill'', Str ''white'')] []
                      # (if int_or (svg_width t) w \<noteq> w \<or> int_or (svg_height t) h \<noteq> h
                         then [Element ''g''
                                 [(''transform'', Translate ((w - int_or (svg_width t) w) div 2)
                                                            ((h - int_or (svg_height t) h) div 2))]
                                 (svg_children t)]
                         else svg_children t)))\<rparr>)"
  using assms by (simp add: render_svg_def Let_def)

lemma centred_offset: "2 * ((a - n) div 2) \<le> a - n \<and> a - n \<le> 2 * ((a - n) div 2) + 1" for a n :: int
  by presburger

lemma default_options:
  "barcodeOptions 260 113 True
   = \<lparr>format = ''UPC'', displayValue = True, width = 2, height = 74, margin = 10, fontSize = 14\<rparr>"
  by (simp add: barcodeOptions_def Let_def)

text \<open>
  Claim C4. Let \<open>w\<close> and \<open>h\<close> be the target size and \<open>opts\<close> the options computed from it.
  Raster: when the canvas the encoder leaves differs from the target in width or height,
  the entry's data URL is that of a new canvas of exactly \<open>w\<close> by \<open>h\<close> on which a white
  rectangle covering all of it was filled first and the encoder's canvas was then drawn
  with the three-argument \<open>drawImage\<close>, which does not scale, with smoothing off, at the
  integer offsets \<open>floor((w - width) / 2)\<close> and \<open>floor((h - height) / 2)\<close>; the gaps on the
  two sides differ by at most one pixel. Vector: the final document is an \<open>svg\<close> element
  with \<open>width\<close>, \<open>height\<close> and \<open>viewBox\<close> set to the target size, whose first child is a
  white background rectangle of that size, followed by the encoder's nodes, which are
  wrapped in a group translated by the same integer offsets when the encoder's size
  differs from the target.
\<close>

theorem output_has_target_size:
  assumes "w = widthPx dims" and "h = heightPx dims" and "opts = barcodeOptions w h showNum"
  shows
    "(\<forall>c. on_canvas enc (number barcode) opts = Some c
          \<and> (canvas_width c \<noteq> w \<or> canvas_height c \<noteq> h) \<longrightarrow>
        generateSingleBarcode enc barcode PNG dims showNum
          = barcode\<lparr>dataUrl := Some (Canvas w h
                [FillRect ''white'' 0 0 w h,
                 DrawImage (fillRect ''white'' 0 0 (canvas_width c) (canvas_height c) c)
                   ((w - canvas_width c) div 2) ((h - canvas_height c) div 2) False]),
              svgString := None\<rparr>
        \<and> 2 * ((w - canvas_width c) div 2) \<le> w - canvas_width c
        \<and> w - canvas_width c \<le> 2 * ((w - canvas_width c) div 2) + 1
        \<and> 2 * ((h - canvas_height c) div 2) \<le> h - canvas_height c
        \<and> h - canvas_height c \<le> 2 * ((h - canvas_height c) div 2) + 1)
     \<and> (\<forall>t. on_svg enc (number barcode) opts = Some t \<longrightarrow>
        generateSingleBarcode enc barcode SVG dims showNum
          = barcode\<lparr>dataUrl := None,
              svgString := Some (Element ''svg''
                [(''width'', Num w), (''height'', Num h), (''viewBox'', ViewBox 0 0 w h),
                 (''xmlns'', Str ''http://www.w3.org/2000/svg'')]
                (Element ''rect''
                   [(''width'', Num w), (''height'', Num h), (''fill'', Str ''white'')] []
                 # (if int_or (svg_width t) w \<noteq> w \<or> int_or (svg_height t) h \<noteq> h
                    then [Element ''g''
                            [(''transform'', Translate ((w - int_or (svg_width t) w) div 2)
                                                       ((h - int_or (svg_height t) h) div 2))]
                            (svg_children t)]
                    else svg_children t)))\<rparr>)"
proof (intro conjI allI impI)
  fix c
  assume c: "on_canvas enc (number barcode) opts = Some c
             \<and> (canvas_width c \<noteq> w \<or> canvas_height c \<noteq> h)"
  then show "generateSingleBarcode enc barcode PNG dims showNum
          = barcode\<lparr>dataUrl := Some (Canvas w h
                [FillRect ''white'' 0 0 w h,
                 DrawImage (fillRect ''white'' 0 0 (canvas_width c) (canvas_height c) c)
                   ((w - canvas_width c) div 2) ((h - canvas_height c) div 2) False]),
              svgString := None\<rparr>"
    using render_png_resized [of enc barcode opts c w h] assms
    by (simp add: generateSingleBarcode_def Let_def)
  show "2 * ((w - canvas_width c) div 2) \<le> w - canvas_width c"
    "w - canvas_width c \<le> 2 * ((w - canvas_width c) div 2) + 1"
    "2 * ((h - canvas_height c) div 2) \<le> h - canvas_height c"
    "h - canvas_height c \<le> 2 * ((h - canvas_height c) div 2) + 1"
    using centred_offset by blast+
next
  fix t
  assume "on_svg enc (number barcode) opts = Some t"
  then show "generateSingleBarcode enc barcode SVG dims showNum
          = barcode\<lparr>dataUrl := None,
              svgString := Some (Element ''svg''
                [(''width'', Num w), (''height'', Num h), (''viewBox'', ViewBox 0 0 w h),
                 (''xmlns'', Str ''http://www.w3.org/2000/svg'')]
                (Element ''rect''
                   [(''width'', Num w), (''height'', Num h), (''fill'', Str ''white'')] []
                 # (if int_or (svg_width t) w \<noteq> w \<or> int_or (svg_height t) h \<noteq> h
                    then [Element ''g''
                            [(''transform'', Translate ((w - int_or (svg_width t) w) div 2)
                                                       ((h - int_or (svg_height t) h) div 2))]
                            (svg_children t)]
                    else svg_children t)))\<rparr>"
    using render_svg_document [of enc barcode opts t w h] assms
    by (simp add: generateSingleBarcode_def Let_def)
qed

text \<open>
  The default size of 260 by 113 pixels with an encoder whose output is 210 by 108: the
  offsets are 25 and 2.
\<close>

theorem output_size_witness:
  "on_canvas accepting_encoder ''012345678905'' (barcodeOptions 260 113 True)
     = Some (Canvas 210 108 [Bars ''012345678905'' (barcodeOptions 260 113 True)])
   \<and> dataUrl (generateSingleBarcode accepting_encoder good_entry PNG (dimensions DEFAULT_WIDTH_CM DEFAULT_HEIGHT_CM) True)
       = Some (Canvas 260 113
           [FillRect ''white'' 0 0 260 113,
            DrawImage (Canvas 210 108 [Bars ''012345678905'' (barcodeOptions 260 113 True),
                                       FillRect ''white'' 0 0 210 108]) 25 2 False])
   \<and> svgString (generateSingleBarcode accepting_encoder good_entry SVG (dimensions DEFAULT_WIDTH_CM DEFAULT_HEIGHT_CM) True)
       = Some (Element ''svg''
           [(''width'', Num 260), (''height'', Num 113), (''viewBox'', ViewBox 0 0 260 113),
            (''xmlns'', Str ''http://www.w3.org/2000/svg'')]
           [Element ''rect''
              [(''width'', Num 260), (''height'', Num 113), (''fill'', Str ''white'')] [],
            Element ''g'' [(''transform'', Translate 25 2)]
              [Element ''rect'' [(''fill'', Str ''#ffffff'')] [],
               Element ''g'' [(''fill'', Str ''#000000'')] []]])"
proof -
  let ?opts = "barcodeOptions 260 113 True"
  let ?c = "Canvas 210 108 [Bars ''012345678905'' ?opts]"
  let ?t = "\<lparr>svg_width = Some 210, svg_height = Some 108,
             svg_children = [Element ''rect'' [(''fill'', Str ''#ffffff'')] [],
                             Element ''g'' [(''fill'', Str ''#000000'')] []]\<rparr>"
  have w: "260 = widthPx (dimensions DEFAULT_WIDTH_CM DEFAULT_HEIGHT_CM)" and h: "113 = heightPx (dimensions DEFAULT_WIDTH_CM DEFAULT_HEIGHT_CM)"
    by (simp_all only: default_size)
  have c: "on_canvas accepting_encoder (number good_entry) ?opts = Some ?c"
    by (simp add: accepting_encoder_def default_options good_entry_eq)
  have t: "on_svg accepting_encoder (number good_entry) ?opts = Some ?t"
    by (simp add: accepting_encoder_def default_options good_entry_eq)
  have d: "canvas_width ?c \<noteq> 260 \<or> canvas_height ?c \<noteq> 113"
    by simp
  note T = output_has_target_size [OF w h refl, of accepting_encoder good_entry True]
  from T c d have "generateSingleBarcode accepting_encoder good_entry PNG (dimensions DEFAULT_WIDTH_CM DEFAULT_HEIGHT_CM) True
      = good_entry\<lparr>dataUrl := Some (Canvas 260 113
                [FillRect ''white'' 0 0 260 113,
                 DrawImage (fillRect ''white'' 0 0 (canvas_width ?c) (canvas_height ?c) ?c)
                   ((260 - canvas_width ?c) div 2) ((113 - canvas_height ?c) div 2) False]),
              svgString := None\<rparr>"
    by blast
  moreover from T t have "generateSingleBarcode accepting_encoder good_entry SVG (dimensions DEFAULT_WIDTH_CM DEFAULT_HEIGHT_CM) True
      = good_entry\<lparr>dataUrl := None,
              svgString := Some (Element ''svg''
                [(''width'', Num 260), (''height'', Num 113), (''viewBox'', ViewBox 0 0 260 113),
                 (''xmlns'', Str ''http://www.w3.org/2000/svg'')]
                (Element ''rect''
                   [(''width'', Num 260), (''height'', Num 113), (''fill'', Str ''white'')] []
                 # (if int_or (svg_width ?t) 260 \<noteq> 260 \<or> int_or (svg_height ?t) 113 \<noteq> 113
                    then [Element ''g''
                            [(''transform'', Translate ((260 - int_or (svg_width ?t) 260) div 2)
                                                       ((113 - int_or (svg_height ?t) 113) div 2))]
                            (svg_children ?t)]
                    else svg_children ?t)))\<rparr>"
    by blast
  ultimately show ?thesis
    using c by (simp add: fillRect_def int_or_def good_entry_eq)
qed

subsection \<open>The archive\<close>

lemma add_barcode_eq:
  "add_barcode fmt e z = (if contributes fmt e then zip_file (file_name fmt e) (file_data fmt e) z else z)"
  by (cases fmt) (simp_all add: add_barcode_def contributes_def file_name_def file_data_def)

lemma names_zip_file: "fst ` set (zip_file n d z) = insert n (fst ` set z)"
  by (induction n d z rule: zip_file.induct) auto

lemma set_zip_file: "set (zip_file n d z) \<subseteq> insert (n, d) (set z)"
  by (induction n d z rule: zip_file.induct) auto

lemma distinct_zip_file: "distinct (map fst z) \<Longrightarrow> distinct (map fst (zip_file n d z))"
proof (induction n d z rule: zip_file.induct)
  case (1 name d)
  then show ?case by simp
next
  case (2 name d n d' files)
  then show ?case
    using names_zip_file [of name d files] by (auto simp: image_iff)
qed

lemma zip_file_new: "n \<notin> fst ` set z \<Longrightarrow> zip_file n d z = z @ [(n, d)]"
  by (induction n d z rule: zip_file.induct) auto

lemma names_fold:
  "fst ` set (fold (add_barcode fmt) bs z)
   = fst ` set z \<union> file_name fmt ` {e \<in> set bs. contributes fmt e}"
  by (induction bs arbitrary: z) (auto simp: add_barcode_eq names_zip_file)

lemma distinct_fold:
  "distinct (map fst z) \<Longrightarrow> distinct (map fst (fold (add_barcode fmt) bs z))"
  by (induction bs arbitrary: z) (simp_all add: add_barcode_eq distinct_zip_file)

lemma set_fold:
  "f \<in> set (fold (add_barcode fmt) bs z) \<Longrightarrow>
   f \<in> set z \<or> (\<exists>e\<in>set bs. contributes fmt e \<and> f = (file_name fmt e, file_data fmt e))"
proof (induction bs arbitrary: z)
  case Nil
  then show ?case by simp
next
  case (Cons b bs)
  from Cons.prems have "f \<in> set (fold (add_barcode fmt) bs (add_barcode fmt b z))"
    by simp
  then consider "f \<in> set (add_barcode fmt b z)"
    | "\<exists>e\<in>set bs. contributes fmt e \<and> f = (file_name fmt e, file_data fmt e)"
    using Cons.IH by blast
  then show ?case
  proof cases
    case 1
    then show ?thesis
      using set_zip_file [of "file_name fmt b" "file_data fmt b" z]
      by (auto simp: add_barcode_eq split: if_splits)
  next
    case 2
    then show ?thesis by auto
  qed
qed

lemma one_file_named:
  "distinct (map fst z) \<Longrightarrow> n \<in> fst ` set z \<Longrightarrow> length (files_named n z) = 1"
  unfolding files_named_def
proof (induction z)
  case Nil
  then show ?case by simp
next
  case (Cons f z)
  show ?case
  proof (cases "fst f = n")
    case True
    with Cons.prems have "\<forall>g\<in>set z. fst g \<noteq> n"
      by (auto simp: image_iff)
    then have "filter (\<lambda>g. fst g = n) z = []"
      by (simp add: filter_empty_conv)
    with True show ?thesis by simp
  next
    case False
    with Cons show ?thesis by auto
  qed
qed

lemma file_name_inj: "file_name fmt e = file_name fmt e' \<longleftrightarrow> number e = number e'"
  by (simp add: file_name_def)

lemma fold_distinct_numbers:
  assumes "distinct (map number (filter (contributes fmt) bs))"
    and "\<forall>e\<in>set bs. contributes fmt e \<longrightarrow> file_name fmt e \<notin> fst ` set z"
  shows "fold (add_barcode fmt) bs z
         = z @ map (\<lambda>e. (file_name fmt e, file_data fmt e)) (filter (contributes fmt) bs)"
  using assms
proof (induction bs arbitrary: z)
  case Nil
  then show ?case by simp
next
  case (Cons b bs)
  show ?case
  proof (cases "contributes fmt b")
    case False
    with Cons show ?thesis
      by (simp add: add_barcode_eq)
  next
    case True
    with Cons.prems have new: "file_name fmt b \<notin> fst ` set z"
      by simp
    have d: "distinct (map number (filter (contributes fmt) bs))"
      using Cons.prems(1) True by simp
    have "\<forall>e\<in>set bs. contributes fmt e \<longrightarrow>
            file_name fmt e \<notin> fst ` set (z @ [(file_name fmt b, file_data fmt b)])"
      using Cons.prems True by (auto simp: file_name_inj image_iff)
    from Cons.IH [OF d this] True new show ?thesis
      by (simp add: add_barcode_eq zip_file_new)
  qed
qed

text \<open>
  Claim C8. The archive is saved as \<open>barcodes.<format>.zip\<close>. For every entry that is
  valid and has a non-null artifact of the export format, the archive holds exactly one
  file named \<open><code>.<ext>\<close>. Every file of the archive bears the name of such an entry
  and holds its artifact: for PNG the base64 part of the data URL, stored decoded, for SVG
  the markup as text. So entries that are invalid or lack the artifact add no file, and
  when no entry contributes the archive is empty. When the contributing entries have
  distinct codes, the files are exactly one per such entry, in the order of the list.
\<close>

theorem archive_files:
  "fst (downloadZip s) = ''barcodes.'' @ extension (exportFormat s) @ ''.zip''
   \<and> (\<forall>e\<in>set (barcodes s). contributes (exportFormat s) e \<longrightarrow>
         length (files_named (number e @ ''.'' @ extension (exportFormat s)) (snd (downloadZip s))) = 1)
   \<and> (\<forall>f\<in>set (snd (downloadZip s)).
         \<exists>e\<in>set (barcodes s). contributes (exportFormat s) e
            \<and> fst f = number e @ ''.'' @ extension (exportFormat s)
            \<and> snd f = file_data (exportFormat s) e)
   \<and> (distinct (map number (filter (contributes (exportFormat s)) (barcodes s))) \<longrightarrow>
         snd (downloadZip s)
           = map (\<lambda>e. (number e @ ''.'' @ extension (exportFormat s), file_data (exportFormat s) e))
               (filter (contributes (exportFormat s)) (barcodes s)))
   \<and> ((\<forall>e\<in>set (barcodes s). \<not> contributes (exportFormat s) e) \<longrightarrow> snd (downloadZip s) = [])"
proof -
  let ?fmt = "exportFormat s" and ?bs = "barcodes s"
  let ?z = "fold (add_barcode ?fmt) ?bs []"
  have z: "snd (downloadZip s) = ?z"
    by (simp add: downloadZip_def)
  have names: "fst ` set ?z = file_name ?fmt ` {e \<in> set ?bs. contributes ?fmt e}"
    using names_fold [of ?fmt ?bs "[]"] by simp
  have dist: "distinct (map fst ?z)"
    by (rule distinct_fold) simp
  have one: "length (files_named (file_name ?fmt e) ?z) = 1"
    if "e \<in> set ?bs" "contributes ?fmt e" for e
    using that by (intro one_file_named [OF dist]) (auto simp: names)
  have only: "\<exists>e\<in>set ?bs. contributes ?fmt e \<and> fst f = file_name ?fmt e \<and> snd f = file_data ?fmt e"
    if "f \<in> set ?z" for f
    using set_fold [OF that] by auto
  have list: "?z = map (\<lambda>e. (file_name ?fmt e, file_data ?fmt e)) (filter (contributes ?fmt) ?bs)"
    if "distinct (map number (filter (contributes ?fmt) ?bs))"
    using fold_distinct_numbers [OF that, of "[]"] by simp
  have none: "?z = []" if "\<forall>e\<in>set ?bs. \<not> contributes ?fmt e"
  proof -
    from that have "{e \<in> set ?bs. contributes ?fmt e} = {}"
      by blast
    with names have "fst ` set ?z = {}"
      by simp
    then show ?thesis
      by simp
  qed
  show ?thesis
    unfolding z using one only list none
    by (auto simp: downloadZip_def file_name_def)
qed

text \<open>One rendered code among three entries gives an archive of one file.\<close>

theorem archive_files_witness:
  "contributes PNG (good_entry\<lparr>dataUrl := Some (Canvas 260 113 [])\<rparr>)
   \<and> \<not> contributes PNG bad_entry
   \<and> \<not> contributes PNG (good_entry\<lparr>number := ''123456789012''\<rparr>)
   \<and> downloadZip rendered_state
       = (''barcodes.png.zip'', [(''012345678905.png'', Base64Of (Canvas 260 113 []))])"
proof -
  have c: "contributes PNG (good_entry\<lparr>dataUrl := Some (Canvas 260 113 [])\<rparr>)"
    "\<not> contributes PNG bad_entry"
    "\<not> contributes PNG (good_entry\<lparr>number := ''123456789012''\<rparr>)"
    by (simp_all add: contributes_def good_entry_eq bad_entry_eq)
  have fmt: "exportFormat rendered_state = PNG"
    and bs: "barcodes rendered_state
       = [good_entry\<lparr>dataUrl := Some (Canvas 260 113 [])\<rparr>, bad_entry,
          good_entry\<lparr>number := ''123456789012''\<rparr>]"
    by (simp_all add: rendered_state_def initial_state_def)
  have d: "distinct (map number (filter (contributes (exportFormat rendered_state))
             (barcodes rendered_state)))"
    unfolding fmt bs by (simp add: c)
  have n: "number good_entry = ''012345678905''"
    by (simp add: good_entry_eq)
  have "snd (downloadZip rendered_state)
        = [(''012345678905.png'', Base64Of (Canvas 260 113 []))]"
    using archive_files [of rendered_state] d
    unfolding fmt bs by (simp add: c file_data_def n)
  moreover have "fst (downloadZip rendered_state) = ''barcodes.png.zip''"
    using archive_files [of rendered_state] unfolding fmt by simp
  ultimately show ?thesis
    using c by (simp add: prod_eq_iff)
qed

subsection \<open>Artifacts, settings and reachable states\<close>

lemma processLine_no_artifact: "dataUrl (processLine l) = None \<and> svgString (processLine l) = None"
  by (simp add: processLine_def Let_def)

lemma upload_clears:
  "e \<in> set (barcodes (handleFileUpload text s)) \<Longrightarrow> dataUrl e = None \<and> svgString e = None"
  by (auto simp: handleFileUpload_def Let_def processLine_no_artifact)

lemma settings_keep_barcodes:
  "barcodes (handle (ShowNumbersChanged b) s) = barcodes s"
  "barcodes (handle (ExportFormatChanged f) s) = barcodes s"
  "barcodes (handle (WidthChanged v) s) = barcodes s"
  "barcodes (handle (HeightChanged v) s) = barcodes s"
  "barcodes (handle LockRatioToggled s) = barcodes s"
  by (simp_all add: handleWidthChange_def handleHeightChange_def Let_def)

lemma generateSingleBarcode_keeps_invariant:
  "valid b \<Longrightarrow> artifact_only_if_valid (generateSingleBarcode enc b fmt dims sn)"
  by (auto simp: artifact_only_if_valid_def generateSingleBarcode_def render_png_def
        render_svg_def Let_def split: option.splits if_splits)

lemma pass_callback_keeps_invariant:
  "artifact_only_if_valid b \<Longrightarrow> artifact_only_if_valid (pass_callback enc s b)"
  by (simp add: pass_callback_def process_entry_def generateSingleBarcode_keeps_invariant)

lemma processed_upto_keeps_invariant:
  assumes "\<forall>b\<in>set bs. P b" and "\<And>b. P b \<Longrightarrow> P (f b)"
  shows "\<forall>b\<in>set (processed_upto f m bs). P b"
  using assms by (auto simp: processed_upto_def dest: in_set_takeD in_set_dropD)

lemma effect_of_pass:
  assumes "e \<in> set (generateBarcodes enc s0)"
  shows "(\<exists>m. e = SetBarcodes (processed_upto (pass_callback enc s0) m (barcodes s0)))
         \<or> (\<forall>s. barcodes (apply_effect e s) = barcodes s)"
  using assms by (auto simp: generateBarcodes_closed chunk_effects_def)

lemma handle_keeps_invariant:
  assumes "\<forall>e\<in>set (barcodes s). artifact_only_if_valid e"
  shows "\<forall>e\<in>set (barcodes (handle ev s)). artifact_only_if_valid e"
proof (cases ev)
  case (FileUploaded upload)
  then show ?thesis
    using upload_clears [of _ upload s] by (auto simp: artifact_only_if_valid_def)
qed (insert assms, simp_all add: handleWidthChange_def handleHeightChange_def Let_def)

lemma reachable_invariant:
  "reachable enc s \<Longrightarrow> \<forall>e\<in>set (barcodes s). artifact_only_if_valid e"
proof (induction rule: reachable.induct)
  case initial
  then show ?case by (simp add: initial_state_def)
next
  case (user s ev)
  from user.IH show ?case by (rule handle_keeps_invariant)
next
  case (pass s0 s e)
  from effect_of_pass [OF pass.hyps(3)] show ?case
  proof
    assume "\<exists>m. e = SetBarcodes (processed_upto (pass_callback enc s0) m (barcodes s0))"
    then obtain m where "e = SetBarcodes (processed_upto (pass_callback enc s0) m (barcodes s0))" ..
    then show ?thesis
      using processed_upto_keeps_invariant [OF pass.IH(1), of "pass_callback enc s0" m]
        pass_callback_keeps_invariant
      by simp
  next
    assume "\<forall>s. barcodes (apply_effect e s) = barcodes s"
    then show ?thesis
      using pass.IH(2) by simp
  qed
qed

lemma reachable_fold:
  "reachable enc s0 \<Longrightarrow> reachable enc s \<Longrightarrow> set es \<subseteq> set (generateBarcodes enc s0) \<Longrightarrow>
   reachable enc (fold apply_effect es s)"
  by (induction es arbitrary: s) (auto intro: reachable.pass)

lemma reachable_run_pass: "reachable enc s \<Longrightarrow> reachable enc (run_pass enc s)"
  by (simp add: run_pass_def reachable_fold)

lemma uploaded_one_barcodes: "barcodes uploaded_one = [good_entry]"
  by (simp add: uploaded_one_def handleFileUpload_def trim_def is_space_def good_entry_def Let_def)

lemma uploaded_one_settings:
  "exportFormat uploaded_one = PNG" "showNumbers uploaded_one = True"
  by (simp_all add: uploaded_one_def handleFileUpload_def initial_state_def Let_def)

lemma generated_one_barcodes:
  "barcodes generated_one = [pass_callback accepting_encoder uploaded_one good_entry]"
  by (simp add: generated_one_def run_pass_barcodes uploaded_one_barcodes)

lemma generated_one_artifact:
  "dataUrl (pass_callback accepting_encoder uploaded_one good_entry) \<noteq> None"
  by (simp add: pass_callback_def process_entry_def generateSingleBarcode_def render_png_def
        accepting_encoder_def uploaded_one_settings good_entry_eq Let_def)

lemma generated_one_reachable: "reachable accepting_encoder generated_one"
  unfolding generated_one_def uploaded_one_def
  by (intro reachable_run_pass reachable.user reachable.initial)

text \<open>
  Claim C9, as amended. A change of a setting (show-numbers, export format, width or
  height) clears no artifact: it leaves the entry list, artifacts included, as it is. In
  every reachable state, an entry whose \<open>dataUrl\<close> or \<open>svgString\<close> is non-null is valid.
\<close>

theorem artifacts_and_settings:
  "barcodes (handle (ShowNumbersChanged b) s) = barcodes s
   \<and> barcodes (handle (ExportFormatChanged f) s) = barcodes s
   \<and> barcodes (handle (WidthChanged v) s) = barcodes s
   \<and> barcodes (handle (HeightChanged v') s) = barcodes s
   \<and> (reachable enc s \<longrightarrow>
        (\<forall>e\<in>set (barcodes s). dataUrl e \<noteq> None \<or> svgString e \<noteq> None \<longrightarrow> valid e))"
proof -
  have "\<forall>e\<in>set (barcodes s). dataUrl e \<noteq> None \<or> svgString e \<noteq> None \<longrightarrow> valid e"
    if "reachable enc s"
    using reachable_invariant [OF that] by (simp add: artifact_only_if_valid_def)
  then show ?thesis
    by (simp add: handleWidthChange_def handleHeightChange_def Let_def)
qed

text \<open>The state after uploading one code and generating it.\<close>

theorem artifacts_and_settings_witness:
  "reachable accepting_encoder generated_one
   \<and> dataUrl (hd (barcodes generated_one)) \<noteq> None
   \<and> valid (hd (barcodes generated_one))
   \<and> barcodes (handle (WidthChanged (Some 3)) generated_one) = barcodes generated_one"
  using artifacts_and_settings [of _ generated_one _ "Some 3" _ accepting_encoder]
    generated_one_reachable generated_one_artifact
  by (simp add: generated_one_barcodes)

text \<open>
  In that state the entry has a data URL, and it still has it after the width, the export
  format or the show-numbers flag is changed.
\<close>

theorem artifact_not_cleared_counterexample:
  "reachable accepting_encoder generated_one
   \<and> dataUrl (hd (barcodes (handle (WidthChanged (Some 3)) generated_one))) \<noteq> None
   \<and> dataUrl (hd (barcodes (handle (ExportFormatChanged SVG) generated_one))) \<noteq> None
   \<and> dataUrl (hd (barcodes (handle (ShowNumbersChanged False) generated_one))) \<noteq> None"
  using generated_one_reachable generated_one_artifact
  by (simp add: settings_keep_barcodes generated_one_barcodes del: handle.simps)

end
